theory Spec2Isabelle
  imports Main "HOL-Library.AList"
begin

section \<open>Values, errors and the object store\<close>

text \<open>
  The container of \<^verbatim>\<open>logos/context.py\<close> is a graph of objects that refer to each other
  and are mutated in place (scope caches, the lazily built registries, the stack of
  active scopes). Objects live in a store and are named by their address; plain values
  (numbers, strings, list and dict literals of a declaration) are values of \<open>pyval\<close>.
  \<open>VClass module name\<close> is a class object obtained by an import, and \<open>VWrapper\<close> is the
  module-level object \<^verbatim>\<open>context = __ContextWrapper()\<close>.
\<close>

type_synonym addr = nat

datatype pyval =
    VNone
  | VBool bool
  | VInt int
  | VStr string
  | VList "pyval list"
  | VTuple "pyval list"
  | VDict "(string \<times> pyval) list"
  | VRef addr
  | VClass string string
  | VWrapper

type_synonym pydict = "(string \<times> pyval) list"

datatype error =
    ContainerException string
  | ValueError string
  | AttributeError string
  | IndexError string
  | TypeError string
  | ImportError string
  | RecursionError
  | Unmodelled string

text \<open>The four resource classes. A \<open>Service\<close> has the attribute \<^verbatim>\<open>klz\<close> or the attribute
  \<^verbatim>\<open>factory\<close> only when its constructor set it: an absent attribute is \<open>None\<close>.\<close>

datatype resource =
    Parameter pyval
  | Service (klz: "string option") (factory: "string option") (parameters: pydict)
  | Class string
  | ResourceGroup string

text \<open>
  The objects of the store, by class:
  \<^item> \<open>Container resources\<close>;
  \<^item> \<open>StackContainer containers _resources_names\<close> (the set of names as a list without
    repetitions);
  \<^item> \<open>NewObject\<close>: what \<^verbatim>\<open>object.__new__(cls)\<close> returns, an object with no attribute yet;
  \<^item> \<open>ApplicationContainer _container modules configuration\<close>, where \<open>configuration\<close> is
    \<open>None\<close> as long as the constructor has not set the attribute;
  \<^item> \<open>Context container runtime\<close>: the layered registry and the cache, both by address,
    since a cache is a dict object that the caller of the constructor may also hold;
  \<^item> \<open>Dict\<close> and \<open>PyList\<close>: dict and list objects that are mutated in place;
  \<^item> \<open>Instance cls cloneable attributes\<close>: an instance of a class that is not part of the
    container, such as a service; \<open>cloneable\<close> says whether it has a method \<^verbatim>\<open>clone\<close>.
\<close>

datatype obj =
    Container "(string \<times> resource) list"
  | StackContainer "pyval list" "string list"
  | NewObject
  | ApplicationContainer "addr option" pyval "pydict option"
  | Context addr addr
  | Dict pydict
  | PyList "pyval list"
  | Instance string bool pydict

record world =
  heap :: "addr \<Rightarrow> obj option"
  next_addr :: addr
  app_instance :: "addr option"
  instances :: "addr list option"
  wrapper_stack :: "addr option"

text \<open>A method takes the world and returns its result, or the exception it raised, with
  the world as it left it: what a method wrote before it raised stays written.\<close>

type_synonym 'a m = "world \<Rightarrow> (error + 'a) \<times> world"

definition ret :: "'a \<Rightarrow> 'a m" where
  "ret a = (\<lambda>w. (Inr a, w))"

definition throw :: "error \<Rightarrow> 'a m" where
  "throw e = (\<lambda>w. (Inl e, w))"

definition and_then :: "'a m \<Rightarrow> ('a \<Rightarrow> 'b m) \<Rightarrow> 'b m" where
  "and_then f g = (\<lambda>w. case f w of (Inl e, w') \<Rightarrow> (Inl e, w') | (Inr a, w') \<Rightarrow> g a w')"

definition alloc :: "obj \<Rightarrow> world \<Rightarrow> addr \<times> world" where
  "alloc ob w = (next_addr w, w\<lparr>heap := (heap w)(next_addr w \<mapsto> ob), next_addr := Suc (next_addr w)\<rparr>)"

text \<open>Python's truth value of a dict argument that may be \<^verbatim>\<open>None\<close>: \<^verbatim>\<open>d or {}\<close>.\<close>

definition or_empty :: "pydict option \<Rightarrow> pydict" where
  "or_empty d = (case d of None \<Rightarrow> [] | Some kvs \<Rightarrow> kvs)"

section \<open>Calls that leave the method\<close>

text \<open>
  A method of one object calls \<^verbatim>\<open>get\<close>, \<^verbatim>\<open>has\<close> and \<^verbatim>\<open>resources_names\<close> of other objects,
  whose class is only known when the call is made, and interpolation calls itself on
  what a lookup returned. Each method below takes these calls as a record \<open>hooks\<close>;
  \<open>hooks_at\<close> (further down) ties them to the methods themselves.
\<close>

record hooks =
  obj_get :: "pyval \<Rightarrow> string \<Rightarrow> pyval m"
  obj_has :: "pyval \<Rightarrow> string \<Rightarrow> bool m"
  obj_resources_names :: "addr \<Rightarrow> string list m"
  again_resolve_value :: "pyval \<Rightarrow> pyval \<Rightarrow> pyval m"

text \<open>
  What the container uses and does not define: the import machinery, the classes of the
  application, and the regular expressions of the standard library.
  \<^item> \<open>import_container module\<close> is \<^verbatim>\<open>getattr(import_module(module), 'container')\<close>; its
    result is \<open>None\<close> when that raises \<^verbatim>\<open>AttributeError\<close>;
  \<^item> \<open>import_attr module_path class_name\<close> is \<^verbatim>\<open>getattr(import_module(module_path), class_name)\<close>;
  \<^item> \<open>call_class cls kwargs\<close> is \<^verbatim>\<open>cls(**kwargs)\<close>, and \<open>call_create factory kwargs\<close> is
    \<^verbatim>\<open>factory.create(**kwargs)\<close>;
  \<^item> \<open>re_match pattern name\<close> is the truth value of \<^verbatim>\<open>re.match(pattern, name)\<close>, and
    \<open>re_sub pattern name\<close> is \<^verbatim>\<open>re.sub(pattern, '', name)\<close>.
\<close>

record ext =
  import_container :: "pyval \<Rightarrow> pyval option m"
  import_attr :: "string \<Rightarrow> string \<Rightarrow> pyval m"
  call_class :: "pyval \<Rightarrow> pydict \<Rightarrow> pyval m"
  call_create :: "pyval \<Rightarrow> pydict \<Rightarrow> pyval m"
  re_match :: "string \<Rightarrow> string \<Rightarrow> error + bool"
  re_sub :: "string \<Rightarrow> string \<Rightarrow> error + string"

section \<open>Strings\<close>

definition startswith_pct :: "string \<Rightarrow> bool" where
  "startswith_pct s = (case s of [] \<Rightarrow> False | c # _ \<Rightarrow> c = CHR ''%'')"

definition endswith_pct :: "string \<Rightarrow> bool" where
  "endswith_pct s = (s \<noteq> [] \<and> last s = CHR ''%'')"

text \<open>\<^verbatim>\<open>value.replace('%', '')\<close>.\<close>

definition replace_pct :: "string \<Rightarrow> string" where
  "replace_pct s = filter (\<lambda>c. c \<noteq> CHR ''%'') s"

text \<open>\<^verbatim>\<open>s.split(':')\<close>, and the unpacking of its result into two names.\<close>

fun split_colon :: "string \<Rightarrow> string list" where
  "split_colon [] = [[]]"
| "split_colon (c # cs) =
     (if c = CHR '':'' then [] # split_colon cs
      else (case split_colon cs of [] \<Rightarrow> [[c]] | p # ps \<Rightarrow> (c # p) # ps))"

definition unpack2 :: "string list \<Rightarrow> error + (string \<times> string)" where
  "unpack2 ps =
     (case ps of
        [a, b] \<Rightarrow> Inr (a, b)
      | [] \<Rightarrow> Inl (ValueError ''not enough values to unpack'')
      | [a] \<Rightarrow> Inl (ValueError ''not enough values to unpack'')
      | _ \<Rightarrow> Inl (ValueError ''too many values to unpack''))"

section \<open>Resources\<close>

subsection \<open>Parameter.resolve_value\<close>

text \<open>
  \<open>resolve_value hk v c\<close> is \<^verbatim>\<open>Parameter.resolve_value(v, c)\<close>. The elements of a list and the
  values of a dict are resolved from left to right, each in the world the one before it
  left. A list or dict object of the store is a list or a dict as well. The two tests are
  \<^verbatim>\<open>isinstance(value, dict)\<close> and \<^verbatim>\<open>isinstance(value, list)\<close>: a tuple is neither, and is
  returned as it is.
\<close>

fun resolve_value :: "hooks \<Rightarrow> pyval \<Rightarrow> pyval \<Rightarrow> pyval m"
and resolve_list :: "hooks \<Rightarrow> pyval list \<Rightarrow> pyval \<Rightarrow> pyval list m"
and resolve_items :: "hooks \<Rightarrow> pydict \<Rightarrow> pyval \<Rightarrow> pydict m"
where
  "resolve_value hk (VDict kvs) c = and_then (resolve_items hk kvs c) (\<lambda>r. ret (VDict r))"
| "resolve_value hk (VList xs) c = and_then (resolve_list hk xs c) (\<lambda>r. ret (VList r))"
| "resolve_value hk (VStr s) c =
     (if startswith_pct s \<and> endswith_pct s
      then and_then (obj_get hk c (replace_pct s)) (\<lambda>r. again_resolve_value hk r c)
      else ret (VStr s))"
| "resolve_value hk (VRef a) c =
     (\<lambda>w. case heap w a of
        Some (Dict kvs) \<Rightarrow> again_resolve_value hk (VDict kvs) c w
      | Some (PyList xs) \<Rightarrow> again_resolve_value hk (VList xs) c w
      | _ \<Rightarrow> ret (VRef a) w)"
| "resolve_value hk (VTuple xs) c = ret (VTuple xs)"
| "resolve_value hk VNone c = ret VNone"
| "resolve_value hk (VBool b) c = ret (VBool b)"
| "resolve_value hk (VInt i) c = ret (VInt i)"
| "resolve_value hk (VClass mp cn) c = ret (VClass mp cn)"
| "resolve_value hk VWrapper c = ret VWrapper"
| "resolve_list hk [] c = ret []"
| "resolve_list hk (x # xs) c =
     and_then (resolve_value hk x c) (\<lambda>y. and_then (resolve_list hk xs c) (\<lambda>ys. ret (y # ys)))"
| "resolve_items hk [] c = ret []"
| "resolve_items hk ((k, v) # kvs) c =
     and_then (resolve_value hk v c) (\<lambda>y. and_then (resolve_items hk kvs c) (\<lambda>ys. ret ((k, y) # ys)))"

definition Parameter_resolve :: "hooks \<Rightarrow> pyval \<Rightarrow> pyval \<Rightarrow> pyval m" where
  "Parameter_resolve hk v c = resolve_value hk v c"

subsection \<open>Class.resolve\<close>

definition Class_resolve :: "ext \<Rightarrow> string \<Rightarrow> pyval m" where
  "Class_resolve x class_path =
     (case unpack2 (split_colon class_path) of
        Inl e \<Rightarrow> throw e
      | Inr (module_path, class_name) \<Rightarrow> import_attr x module_path class_name)"

subsection \<open>Service.__init__ and Service.resolve\<close>

definition Service_init :: "string option \<Rightarrow> string option \<Rightarrow> pydict option \<Rightarrow> error + resource" where
  "Service_init k f p =
     (if k \<noteq> None then Inr (Service k None (or_empty p))
      else if f \<noteq> None then Inr (Service None f (or_empty p))
      else Inl (ValueError ''class or factory is required''))"

text \<open>
  \<^verbatim>\<open>Service.resolve\<close>: the local \<^verbatim>\<open>factory\<close> is the class-based function when the attribute
  \<^verbatim>\<open>klz\<close> exists, then the factory-based one when the attribute \<^verbatim>\<open>factory\<close> exists, and
  \<^verbatim>\<open>None\<close> otherwise. The parameters are interpolated before the call is made, so also
  when the call then fails because \<^verbatim>\<open>factory\<close> is \<^verbatim>\<open>None\<close>.
\<close>

definition Service_resolve :: "ext \<Rightarrow> hooks \<Rightarrow> resource \<Rightarrow> pyval \<Rightarrow> pyval m" where
  "Service_resolve x hk s c =
     and_then (resolve_items hk (parameters s) c) (\<lambda>kwargs.
       case factory s of
         Some f \<Rightarrow> and_then (obj_get hk c f) (\<lambda>fac. call_create x fac kwargs)
       | None \<Rightarrow>
          (case klz s of
             Some k \<Rightarrow>
               (case unpack2 (split_colon k) of
                  Inl e \<Rightarrow> throw e
                | Inr (module_path, class_name) \<Rightarrow>
                    and_then (import_attr x module_path class_name) (\<lambda>cls. call_class x cls kwargs))
           | None \<Rightarrow> throw (TypeError ''NoneType object is not callable'')))"

section \<open>Scopes: the class Context\<close>

subsection \<open>Context.__init__\<close>

text \<open>\<^verbatim>\<open>runtime or {}\<close>: the dict passed in is kept when it has an entry, and a new empty dict
  is made when the argument is \<^verbatim>\<open>None\<close> or an empty dict.\<close>

definition runtime_or_new :: "addr option \<Rightarrow> world \<Rightarrow> addr \<times> world" where
  "runtime_or_new runtime w =
     (case runtime of
        None \<Rightarrow> alloc (Dict []) w
      | Some r \<Rightarrow> (case heap w r of Some (Dict []) \<Rightarrow> alloc (Dict []) w | _ \<Rightarrow> (r, w)))"

definition Context_init_stack :: "addr \<Rightarrow> addr option \<Rightarrow> pyval m" where
  "Context_init_stack c runtime w =
     (let (rt, w1) = runtime_or_new runtime w;
          (cx, w2) = alloc (Context c rt) w1
      in (Inr (VRef cx), w2))"

definition Context_init_wrap :: "pyval \<Rightarrow> addr option \<Rightarrow> pyval m" where
  "Context_init_wrap container runtime w =
     (let (s, w1) = alloc (StackContainer [container] []) w in Context_init_stack s runtime w1)"

text \<open>The two overloads of the constructor: a \<^verbatim>\<open>StackContainer\<close> is taken as it is, any other
  container is wrapped into a new \<^verbatim>\<open>StackContainer\<close> first.\<close>

definition Context_init :: "pyval \<Rightarrow> addr option \<Rightarrow> pyval m" where
  "Context_init container runtime w =
     (case container of
        VRef c \<Rightarrow>
          (case heap w c of
             Some (StackContainer cs ns) \<Rightarrow> Context_init_stack c runtime w
           | Some (Container rs) \<Rightarrow> Context_init_wrap container runtime w
           | Some (ApplicationContainer s ms cfg) \<Rightarrow> Context_init_wrap container runtime w
           | Some (Context c' r') \<Rightarrow> Context_init_wrap container runtime w
           | _ \<Rightarrow> (Inl (TypeError ''no matching overload''), w))
      | VWrapper \<Rightarrow> Context_init_wrap container runtime w
      | _ \<Rightarrow> (Inl (TypeError ''no matching overload''), w))"

subsection \<open>Context.get and Context.has\<close>

text \<open>In \<^verbatim>\<open>self.runtime[name] = self.container.get(name)\<close> the right-hand side is evaluated
  first; the cache that is written, and read for the result, is the attribute as it is
  after that call.\<close>

definition Context_get :: "hooks \<Rightarrow> addr \<Rightarrow> string \<Rightarrow> pyval m" where
  "Context_get hk self name w =
     (case heap w self of
        Some (Context c r) \<Rightarrow>
          (case heap w r of
             Some (Dict kvs) \<Rightarrow>
               (if name \<in> set (map fst kvs)
                then (case map_of kvs name of Some v \<Rightarrow> (Inr v, w) | None \<Rightarrow> (Inr VNone, w))
                else and_then (obj_get hk (VRef c) name)
                  (\<lambda>v w'. case heap w' self of
                       Some (Context c' r') \<Rightarrow>
                         (case heap w' r' of
                            Some (Dict kvs') \<Rightarrow>
                              (Inr v, w'\<lparr>heap := (heap w')(r' \<mapsto> Dict (AList.update name v kvs'))\<rparr>)
                          | _ \<Rightarrow> (Inl (TypeError ''runtime is not a dict''), w'))
                     | _ \<Rightarrow> (Inl (AttributeError ''runtime''), w')) w)
           | _ \<Rightarrow> (Inl (AttributeError ''keys''), w))
      | _ \<Rightarrow> (Inl (AttributeError ''runtime''), w))"

definition Context_has :: "hooks \<Rightarrow> addr \<Rightarrow> string \<Rightarrow> bool m" where
  "Context_has hk self name w =
     (case heap w self of
        Some (Context c r) \<Rightarrow>
          (case heap w r of
             Some (Dict kvs) \<Rightarrow>
               (if name \<in> set (map fst kvs) then (Inr True, w) else obj_has hk (VRef c) name w)
           | _ \<Rightarrow> (Inl (AttributeError ''keys''), w))
      | _ \<Rightarrow> (Inl (AttributeError ''runtime''), w))"

subsection \<open>Context.__enter__ and Context.__exit__\<close>

text \<open>The context variable \<^verbatim>\<open>Context.instances\<close> is the field \<open>instances\<close> of the world:
  \<open>None\<close> as long as it was never set, the list of the active scopes afterwards.\<close>

definition Context_enter :: "addr \<Rightarrow> unit m" where
  "Context_enter self w =
     (let w1 = (if instances w = None then w\<lparr>instances := Some []\<rparr> else w)
      in (Inr (), w1\<lparr>instances := Some ((case instances w1 of None \<Rightarrow> [] | Some cs \<Rightarrow> cs) @ [self])\<rparr>))"

text \<open>\<^verbatim>\<open>contexts.index(self)\<close> is the position of the first entry equal to \<open>self\<close> and raises
  \<^verbatim>\<open>ValueError\<close> when there is none; \<^verbatim>\<open>contexts.pop(index)\<close> then removes that entry. When the
  variable was never set, the list is the default of the call and is dropped.\<close>

definition Context_exit :: "addr \<Rightarrow> unit m" where
  "Context_exit self w =
     (let contexts = (case instances w of None \<Rightarrow> [] | Some cs \<Rightarrow> cs)
      in if self \<in> set contexts
         then (Inr (), (case instances w of None \<Rightarrow> w | Some cs \<Rightarrow> w\<lparr>instances := Some (remove1 self contexts)\<rparr>))
         else (Inl (ValueError ''is not in list''), w))"

text \<open>The statement \<^verbatim>\<open>with scope: body\<close>: \<^verbatim>\<open>__exit__\<close> runs whether the body returned or raised,
  and since it returns \<^verbatim>\<open>None\<close> the exception of the body is raised again after it.\<close>

definition with_scope :: "addr \<Rightarrow> 'a m \<Rightarrow> 'a m" where
  "with_scope self body w =
     (case Context_enter self w of
        (Inl e, w1) \<Rightarrow> (Inl e, w1)
      | (Inr u, w1) \<Rightarrow>
          (case body w1 of
             (r, w2) \<Rightarrow>
               (case Context_exit self w2 of
                  (Inl e, w3) \<Rightarrow> (Inl e, w3)
                | (Inr u', w3) \<Rightarrow> (r, w3))))"

subsection \<open>Context.new_from\<close>

text \<open>
  Modelled from the spec: the \<^verbatim>\<open>clone\<close> capability of a cached value. No class of the
  repository defines a method \<^verbatim>\<open>clone\<close>; the spec describes it as giving an independent copy
  of a stateful value. A value has it when it is an instance whose class provides it, and
  the clone is a new object of the same class with the same attributes.
\<close>

definition has_clone :: "world \<Rightarrow> pyval \<Rightarrow> bool" where
  "has_clone w v =
     (case v of
        VRef a \<Rightarrow> (case heap w a of Some (Instance cls cl attrs) \<Rightarrow> cl | _ \<Rightarrow> False)
      | _ \<Rightarrow> False)"

definition clone :: "pyval \<Rightarrow> pyval m" where
  "clone v w =
     (case v of
        VRef a \<Rightarrow>
          (case heap w a of
             Some (Instance cls True attrs) \<Rightarrow>
               (let (b, w1) = alloc (Instance cls True attrs) w in (Inr (VRef b), w1))
           | _ \<Rightarrow> (Inl (AttributeError ''clone''), w))
      | _ \<Rightarrow> (Inl (AttributeError ''clone''), w))"

text \<open>The loop over the entries of the parent's cache; \<open>rt\<close> is the dict that becomes the
  cache of the child.\<close>

fun clone_items :: "pydict \<Rightarrow> addr \<Rightarrow> unit m" where
  "clone_items [] rt = ret ()"
| "clone_items ((name, v) # kvs) rt =
     (\<lambda>w. case heap w rt of
        Some (Dict d) \<Rightarrow>
          (if name \<notin> set (map fst d) \<and> has_clone w v
           then and_then (clone v)
                  (\<lambda>cv w'. case heap w' rt of
                      Some (Dict d') \<Rightarrow>
                        clone_items kvs rt (w'\<lparr>heap := (heap w')(rt \<mapsto> Dict (AList.update name cv d'))\<rparr>)
                    | _ \<Rightarrow> (Inl (TypeError ''runtime is not a dict''), w')) w
           else clone_items kvs rt w)
      | _ \<Rightarrow> (Inl (AttributeError ''keys''), w))"

definition Context_new_from :: "addr \<Rightarrow> addr option \<Rightarrow> pyval option \<Rightarrow> pyval m" where
  "Context_new_from parent runtime container w =
     (let (rt, w1) = runtime_or_new runtime w
      in case heap w1 parent of
           Some (Context pc pr) \<Rightarrow>
             (case heap w1 pr of
                Some (Dict items) \<Rightarrow>
                  and_then (clone_items items rt)
                    (\<lambda>u w2.
                       let (s, w3) = alloc (StackContainer
                              (case container of None \<Rightarrow> [VRef pc] | Some c \<Rightarrow> [VRef pc, c]) []) w2
                       in Context_init (VRef s) (Some rt) w3) w1
              | _ \<Rightarrow> (Inl (AttributeError ''items''), w1))
         | _ \<Rightarrow> (Inl (AttributeError ''runtime''), w1))"

section \<open>The ambient accessor: the class __ContextWrapper\<close>

definition layer_of :: "addr option \<Rightarrow> pyval" where
  "layer_of a = (case a of None \<Rightarrow> VNone | Some r \<Rightarrow> VRef r)"

text \<open>The first statement of the property \<^verbatim>\<open>container\<close>: the attribute \<^verbatim>\<open>_stack\<close> is set once,
  to a new \<^verbatim>\<open>StackContainer\<close> over \<^verbatim>\<open>ApplicationContainer.instance\<close> as it is at that moment.\<close>

definition ContextWrapper_stack :: "world \<Rightarrow> addr \<times> world" where
  "ContextWrapper_stack w =
     (case wrapper_stack w of
        Some s \<Rightarrow> (s, w)
      | None \<Rightarrow>
          (let (s, w1) = alloc (StackContainer [layer_of (app_instance w)] []) w
           in (s, w1\<lparr>wrapper_stack := Some s\<rparr>)))"

text \<open>\<^verbatim>\<open>stack_list.append(...)\<close>, on the list that the \<^verbatim>\<open>StackContainer\<close> at \<open>sc\<close> holds.\<close>

definition append_layer :: "addr \<Rightarrow> pyval \<Rightarrow> world \<Rightarrow> world" where
  "append_layer sc v w =
     (case heap w sc of
        Some (StackContainer cs ns) \<Rightarrow> w\<lparr>heap := (heap w)(sc \<mapsto> StackContainer (cs @ [v]) ns)\<rparr>
      | _ \<Rightarrow> w)"

text \<open>The last branch of the property: a new scope over a new layered registry that
  holds \<^verbatim>\<open>_stack\<close> and, appended after the scope was made, a flat registry that declares
  the scope itself under the name \<^verbatim>\<open>context\<close>.\<close>

definition ContextWrapper_root :: "addr \<Rightarrow> pyval m" where
  "ContextWrapper_root s w1 =
     (let (sc, w2) = alloc (StackContainer [VRef s] []) w1
      in and_then (Context_init (VRef sc) None)
           (\<lambda>cx w3.
              let (ct, w4) = alloc (Container [(''context'', Parameter cx)]) w3
              in (Inr cx, append_layer sc (VRef ct) w4)) w2)"

definition ContextWrapper_container :: "pyval m" where
  "ContextWrapper_container w =
     (let (s, w1) = ContextWrapper_stack w;
          contexts = (case instances w1 of None \<Rightarrow> [] | Some cs \<Rightarrow> cs)
      in if contexts \<noteq> [] then (Inr (VRef (last contexts)), w1)
         else ContextWrapper_root s w1)"

definition ContextWrapper_get :: "hooks \<Rightarrow> string \<Rightarrow> pyval m" where
  "ContextWrapper_get hk name = and_then ContextWrapper_container (\<lambda>cx. obj_get hk cx name)"

definition ContextWrapper_has :: "hooks \<Rightarrow> string \<Rightarrow> bool m" where
  "ContextWrapper_has hk name = and_then ContextWrapper_container (\<lambda>cx. obj_has hk cx name)"

section \<open>The application registry: the class ApplicationContainer\<close>

text \<open>\<^verbatim>\<open>ApplicationContainer(modules, configuration)\<close> runs \<^verbatim>\<open>__new__\<close> and then \<^verbatim>\<open>__init__\<close> on
  the object that \<^verbatim>\<open>__new__\<close> returned. The class attribute \<^verbatim>\<open>instance\<close> is the field
  \<open>app_instance\<close> of the world.\<close>

definition ApplicationContainer_new :: "addr m" where
  "ApplicationContainer_new w =
     (case app_instance w of
        None \<Rightarrow> (let (a, w1) = alloc NewObject w in (Inr a, w1\<lparr>app_instance := Some a\<rparr>))
      | Some i \<Rightarrow> (Inl (ContainerException ''application container already initialized''), w))"

text \<open>\<^verbatim>\<open>__init__\<close> stores the list it was given and appends to that same list object. The
  argument is a reference to a list object of the caller; anything else has no \<^verbatim>\<open>append\<close>.\<close>

definition ApplicationContainer_init :: "addr \<Rightarrow> pyval \<Rightarrow> pydict option \<Rightarrow> unit m" where
  "ApplicationContainer_init self modules configuration w =
     (let w1 = w\<lparr>heap := (heap w)(self \<mapsto> ApplicationContainer None modules None)\<rparr>
      in case modules of
           VRef ml \<Rightarrow>
             (case heap w1 ml of
                Some (PyList xs) \<Rightarrow>
                  (Inr (), w1\<lparr>heap := (heap w1)
                      (ml \<mapsto> PyList (xs @ [VStr ''logos'']),
                       self \<mapsto> ApplicationContainer None modules (Some (or_empty configuration)))\<rparr>)
              | _ \<Rightarrow> (Inl (AttributeError ''append''), w1))
         | _ \<Rightarrow> (Inl (AttributeError ''append''), w1))"

definition ApplicationContainer_call :: "pyval \<Rightarrow> pydict option \<Rightarrow> addr m" where
  "ApplicationContainer_call modules configuration =
     and_then ApplicationContainer_new
       (\<lambda>a. and_then (ApplicationContainer_init a modules configuration) (\<lambda>u. ret a))"

text \<open>The loop of the property \<^verbatim>\<open>container\<close>: a module without an attribute \<^verbatim>\<open>container\<close> is
  skipped, any other failure of the import leaves the loop.\<close>

fun import_modules :: "ext \<Rightarrow> pyval list \<Rightarrow> pyval list \<Rightarrow> pyval list m" where
  "import_modules x [] stack = ret stack"
| "import_modules x (md # mds) stack =
     and_then (import_container x md)
       (\<lambda>r. import_modules x mds (case r of None \<Rightarrow> stack | Some c \<Rightarrow> stack @ [c]))"

definition set_container :: "addr \<Rightarrow> addr \<Rightarrow> world \<Rightarrow> world" where
  "set_container a s w =
     (case heap w a of
        Some (ApplicationContainer c ms cfg) \<Rightarrow>
          w\<lparr>heap := (heap w)(a \<mapsto> ApplicationContainer (Some s) ms cfg)\<rparr>
      | _ \<Rightarrow> w)"

definition ApplicationContainer_container :: "ext \<Rightarrow> addr \<Rightarrow> pyval m" where
  "ApplicationContainer_container x a w =
     (case heap w a of
        Some (ApplicationContainer (Some s) ms cfg) \<Rightarrow> (Inr (VRef s), w)
      | Some (ApplicationContainer None ms cfg) \<Rightarrow>
          (case cfg of
             None \<Rightarrow> (Inl (AttributeError ''configuration''), w)
           | Some kvs \<Rightarrow>
               (let (c0, w1) = alloc (Container
                       [(''app.modules'', Parameter ms),
                        (''app.configuration'', Parameter (VDict kvs))]) w
                in case (case ms of
                           VRef ml \<Rightarrow> (case heap w1 ml of Some (PyList xs) \<Rightarrow> Some xs | _ \<Rightarrow> None)
                         | VList xs \<Rightarrow> Some xs
                         | _ \<Rightarrow> None) of
                     None \<Rightarrow> (Inl (TypeError ''object is not iterable''), w1)
                   | Some xs \<Rightarrow>
                       and_then (import_modules x xs [VRef c0])
                         (\<lambda>stack w2.
                            let (s, w3) = alloc (StackContainer stack []) w2
                            in (Inr (VRef s), set_container a s w3)) w1))
      | _ \<Rightarrow> (Inl (AttributeError ''_container''), w))"

definition ApplicationContainer_get :: "ext \<Rightarrow> hooks \<Rightarrow> addr \<Rightarrow> string \<Rightarrow> pyval m" where
  "ApplicationContainer_get x hk a name =
     and_then (ApplicationContainer_container x a) (\<lambda>c. obj_get hk c name)"

definition ApplicationContainer_has :: "ext \<Rightarrow> hooks \<Rightarrow> addr \<Rightarrow> string \<Rightarrow> bool m" where
  "ApplicationContainer_has x hk a name =
     and_then (ApplicationContainer_container x a) (\<lambda>c. obj_has hk c name)"

section \<open>The layered registry: the class StackContainer\<close>

text \<open>The loop of \<^verbatim>\<open>get\<close>: the first layer, from the last one down, whose \<^verbatim>\<open>has\<close> is true.\<close>

fun first_having :: "hooks \<Rightarrow> pyval list \<Rightarrow> string \<Rightarrow> pyval option m" where
  "first_having hk [] name = ret None"
| "first_having hk (c # cs) name =
     and_then (obj_has hk c name) (\<lambda>b. if b then ret (Some c) else first_having hk cs name)"

definition StackContainer_get :: "hooks \<Rightarrow> pyval list \<Rightarrow> string \<Rightarrow> pyval m" where
  "StackContainer_get hk containers name =
     and_then (first_having hk (rev containers) name)
       (\<lambda>r. case r of
               Some c \<Rightarrow> obj_get hk c name
             | None \<Rightarrow>
                 (case containers of
                    [] \<Rightarrow> throw (IndexError ''list index out of range'')
                  | c0 # cs \<Rightarrow> obj_get hk c0 name))"

text \<open>\<^verbatim>\<open>any(container.has(name) for container in self.containers)\<close> stops at the first layer
  that has the name.\<close>

fun StackContainer_has :: "hooks \<Rightarrow> pyval list \<Rightarrow> string \<Rightarrow> bool m" where
  "StackContainer_has hk [] name = ret False"
| "StackContainer_has hk (c # cs) name =
     and_then (obj_has hk c name) (\<lambda>b. if b then ret True else StackContainer_has hk cs name)"

text \<open>The property \<^verbatim>\<open>resources_names\<close>. The set of names is a list without repetitions; the
  order of a Python set is not fixed, so nothing below depends on the order of this list.\<close>

definition names_union :: "string list \<Rightarrow> string list \<Rightarrow> string list" where
  "names_union xs ys = remdups (xs @ ys)"

definition names_of_plain :: "hooks \<Rightarrow> pyval \<Rightarrow> string list m" where
  "names_of_plain hk c w =
     (case c of
        VRef a \<Rightarrow>
          (case heap w a of
             Some (Container rs) \<Rightarrow> (Inr (map fst rs), w)
           | Some (StackContainer cs ns) \<Rightarrow> obj_resources_names hk a w
           | _ \<Rightarrow> (Inr [], w))
      | _ \<Rightarrow> (Inr [], w))"

definition names_of_layer :: "ext \<Rightarrow> hooks \<Rightarrow> pyval \<Rightarrow> string list m" where
  "names_of_layer x hk c w =
     (case c of
        VRef a \<Rightarrow>
          (case heap w a of
             Some (ApplicationContainer s ms cfg) \<Rightarrow>
               and_then (ApplicationContainer_container x a) (\<lambda>c'. names_of_plain hk c') w
           | _ \<Rightarrow> names_of_plain hk c w)
      | _ \<Rightarrow> names_of_plain hk c w)"

fun collect_names :: "ext \<Rightarrow> hooks \<Rightarrow> pyval list \<Rightarrow> string list \<Rightarrow> string list m" where
  "collect_names x hk [] resources = ret resources"
| "collect_names x hk (c # cs) resources =
     and_then (names_of_layer x hk c) (\<lambda>ns. collect_names x hk cs (names_union resources ns))"

definition StackContainer_resources_names :: "ext \<Rightarrow> hooks \<Rightarrow> addr \<Rightarrow> string list m" where
  "StackContainer_resources_names x hk a w =
     (case heap w a of
        Some (StackContainer cs ns) \<Rightarrow>
          (if ns = []
           then and_then (collect_names x hk cs [])
                  (\<lambda>resources w'. case heap w' a of
                       Some (StackContainer cs' ns') \<Rightarrow>
                         (Inr (names_union ns' resources),
                          w'\<lparr>heap := (heap w')(a \<mapsto> StackContainer cs' (names_union ns' resources))\<rparr>)
                     | _ \<Rightarrow> (Inl (AttributeError ''_resources_names''), w')) w
           else (Inr ns, w))
      | _ \<Rightarrow> (Inl (AttributeError ''resources_names''), w))"

section \<open>Name discovery: __ContextWrapper.find and ResourceGroup.resolve\<close>

fun filter_match :: "ext \<Rightarrow> string \<Rightarrow> string list \<Rightarrow> error + string list" where
  "filter_match x p [] = Inr []"
| "filter_match x p (n # ns) =
     (case re_match x p n of
        Inl e \<Rightarrow> Inl e
      | Inr b \<Rightarrow>
          (case filter_match x p ns of
             Inl e \<Rightarrow> Inl e
           | Inr r \<Rightarrow> Inr (if b then n # r else r)))"

definition ContextWrapper_find :: "ext \<Rightarrow> hooks \<Rightarrow> string \<Rightarrow> string list m" where
  "ContextWrapper_find x hk p =
     and_then ContextWrapper_container
       (\<lambda>cx w. case cx of
            VRef a \<Rightarrow>
              (case heap w a of
                 Some (Context c r) \<Rightarrow>
                   and_then (StackContainer_resources_names x hk c)
                     (\<lambda>names w'. (filter_match x p names, w')) w
               | _ \<Rightarrow> (Inl (AttributeError ''container''), w))
          | _ \<Rightarrow> (Inl (AttributeError ''container''), w))"

text \<open>The dict comprehension of \<^verbatim>\<open>ResourceGroup.resolve\<close>: a later name with the same key
  replaces the value of an earlier one.\<close>

fun group_dict :: "ext \<Rightarrow> string \<Rightarrow> string list \<Rightarrow> pydict \<Rightarrow> error + pydict" where
  "group_dict x p [] d = Inr d"
| "group_dict x p (v # vs) d =
     (case re_sub x p v of
        Inl e \<Rightarrow> Inl e
      | Inr k \<Rightarrow> group_dict x p vs (AList.update k (VStr v) d))"

definition ResourceGroup_resolve :: "ext \<Rightarrow> hooks \<Rightarrow> string \<Rightarrow> pyval m" where
  "ResourceGroup_resolve x hk p =
     and_then (ContextWrapper_find x hk p)
       (\<lambda>names w. (case group_dict x p names [] of Inl e \<Rightarrow> Inl e | Inr d \<Rightarrow> Inr (VDict d), w))"

section \<open>The flat registry: the class Container\<close>

definition resource_resolve :: "ext \<Rightarrow> hooks \<Rightarrow> resource \<Rightarrow> pyval \<Rightarrow> pyval m" where
  "resource_resolve x hk r c =
     (case r of
        Parameter v \<Rightarrow> Parameter_resolve hk v c
      | Service k f ps \<Rightarrow> Service_resolve x hk r c
      | Class class_path \<Rightarrow> Class_resolve x class_path
      | ResourceGroup p \<Rightarrow> ResourceGroup_resolve x hk p)"

text \<open>\<^verbatim>\<open>Container.get\<close> passes the module-level \<^verbatim>\<open>context\<close> to the resource, whatever scope
  the request came through.\<close>

definition Container_get :: "ext \<Rightarrow> hooks \<Rightarrow> (string \<times> resource) list \<Rightarrow> string \<Rightarrow> pyval m" where
  "Container_get x hk resources name =
     (case map_of resources name of
        None \<Rightarrow> throw (ContainerException (name @ '' not in container''))
      | Some r \<Rightarrow> resource_resolve x hk r VWrapper)"

definition Container_has :: "(string \<times> resource) list \<Rightarrow> string \<Rightarrow> bool m" where
  "Container_has resources name = ret (name \<in> set (map fst resources))"

section \<open>Method dispatch\<close>

text \<open>\<^verbatim>\<open>obj.get(name)\<close> and \<^verbatim>\<open>obj.has(name)\<close> by the class of \<open>obj\<close>; a value without these methods
  raises \<^verbatim>\<open>AttributeError\<close>.\<close>

definition dispatch_get :: "ext \<Rightarrow> hooks \<Rightarrow> pyval \<Rightarrow> string \<Rightarrow> pyval m" where
  "dispatch_get x hk v name w =
     (case v of
        VWrapper \<Rightarrow> ContextWrapper_get hk name w
      | VRef a \<Rightarrow>
          (case heap w a of
             Some (Container rs) \<Rightarrow> Container_get x hk rs name w
           | Some (StackContainer cs ns) \<Rightarrow> StackContainer_get hk cs name w
           | Some (ApplicationContainer s ms cfg) \<Rightarrow> ApplicationContainer_get x hk a name w
           | Some (Context c r) \<Rightarrow> Context_get hk a name w
           | _ \<Rightarrow> (Inl (AttributeError ''get''), w))
      | _ \<Rightarrow> (Inl (AttributeError ''get''), w))"

definition dispatch_has :: "ext \<Rightarrow> hooks \<Rightarrow> pyval \<Rightarrow> string \<Rightarrow> bool m" where
  "dispatch_has x hk v name w =
     (case v of
        VWrapper \<Rightarrow> ContextWrapper_has hk name w
      | VRef a \<Rightarrow>
          (case heap w a of
             Some (Container rs) \<Rightarrow> Container_has rs name w
           | Some (StackContainer cs ns) \<Rightarrow> StackContainer_has hk cs name w
           | Some (ApplicationContainer s ms cfg) \<Rightarrow> ApplicationContainer_has x hk a name w
           | Some (Context c r) \<Rightarrow> Context_has hk a name w
           | _ \<Rightarrow> (Inl (AttributeError ''has''), w))
      | _ \<Rightarrow> (Inl (AttributeError ''has''), w))"

text \<open>
  The calls of depth \<open>n\<close>: a call nested deeper than \<open>n\<close> raises \<^verbatim>\<open>RecursionError\<close>, as Python
  does at its recursion limit.
\<close>

primrec hooks_at :: "ext \<Rightarrow> nat \<Rightarrow> hooks" where
  "hooks_at x 0 =
     \<lparr>obj_get = (\<lambda>v name. throw RecursionError),
      obj_has = (\<lambda>v name. throw RecursionError),
      obj_resources_names = (\<lambda>a. throw RecursionError),
      again_resolve_value = (\<lambda>v c. throw RecursionError)\<rparr>"
| "hooks_at x (Suc n) =
     \<lparr>obj_get = dispatch_get x (hooks_at x n),
      obj_has = dispatch_has x (hooks_at x n),
      obj_resources_names = StackContainer_resources_names x (hooks_at x n),
      again_resolve_value = resolve_value (hooks_at x n)\<rparr>"

section \<open>The built-in module and a sample application\<close>

text \<open>\<^verbatim>\<open>logos/__init__.py\<close>: the registry that the module \<^verbatim>\<open>logos\<close> contributes.\<close>

definition logos_resources :: "(string \<times> resource) list" where
  "logos_resources =
     (case Service_init (Some ''logos.command:DelegateCommand'') None
             (Some [(''commands'', VStr ''%groups.commands%'')]) of
        Inr app_command \<Rightarrow>
          [(''groups.commands'', ResourceGroup ''^app.command.''),
           (''app.command'', app_command)]
      | Inl e \<Rightarrow> [])"

text \<open>
  The regular expressions of the standard library, for the patterns that consist of an
  optional leading \<^verbatim>\<open>^\<close> followed by ordinary characters and \<^verbatim>\<open>.\<close> (any character but a
  newline). Such a pattern matches a fixed number of characters. Other patterns are not
  modelled: both functions then return \<open>Unmodelled\<close>.
\<close>

datatype re_item = Lit char | AnyChar

definition re_special :: "char \<Rightarrow> bool" where
  "re_special c = (c \<in> set ''^$*+?{}[]()|'' \<or> c = CHR 0x5C)"

fun re_items :: "string \<Rightarrow> re_item list option" where
  "re_items [] = Some []"
| "re_items (c # cs) =
     (if c = CHR ''.'' then map_option ((#) AnyChar) (re_items cs)
      else if re_special c then None
      else map_option ((#) (Lit c)) (re_items cs))"

definition re_parse :: "string \<Rightarrow> (bool \<times> re_item list) option" where
  "re_parse p =
     (case p of
        [] \<Rightarrow> Some (False, [])
      | c # cs \<Rightarrow>
          (if c = CHR ''^'' then map_option (Pair True) (re_items cs)
           else map_option (Pair False) (re_items p)))"

fun item_matches :: "re_item \<Rightarrow> char \<Rightarrow> bool" where
  "item_matches (Lit a) c = (a = c)"
| "item_matches AnyChar c = (c \<noteq> CHR 0x0A)"

text \<open>Whether the items match a prefix of the string.\<close>

fun match_here :: "re_item list \<Rightarrow> string \<Rightarrow> bool" where
  "match_here [] s = True"
| "match_here (i # rest) [] = False"
| "match_here (i # rest) (c # cs) = (item_matches i c \<and> match_here rest cs)"

text \<open>\<^verbatim>\<open>re.sub\<close> with an empty replacement and a pattern without \<^verbatim>\<open>^\<close>: from left to right,
  every match that does not overlap an earlier one is removed.\<close>

function sub_from :: "re_item list \<Rightarrow> string \<Rightarrow> string" where
  "sub_from items [] = []"
| "sub_from items (c # cs) =
     (if items \<noteq> [] \<and> match_here items (c # cs)
      then sub_from items (drop (length items - 1) cs)
      else c # sub_from items cs)"
  by pat_completeness auto
termination
  by (relation "measure (\<lambda>(items, s). length s)") auto

definition py_re_match :: "string \<Rightarrow> string \<Rightarrow> error + bool" where
  "py_re_match p s =
     (case re_parse p of
        None \<Rightarrow> Inl (Unmodelled ''re.match'')
      | Some (anchored, items) \<Rightarrow> Inr (match_here items s))"

text \<open>With a leading \<^verbatim>\<open>^\<close> the only match is the one at the start of the string.\<close>

definition py_re_sub :: "string \<Rightarrow> string \<Rightarrow> error + string" where
  "py_re_sub p s =
     (case re_parse p of
        None \<Rightarrow> Inl (Unmodelled ''re.sub'')
      | Some (anchored, items) \<Rightarrow>
          Inr (if anchored then (if match_here items s then drop (length items) s else s)
               else sub_from items s))"

text \<open>
  A sample application: \<open>mods\<close> gives the attribute \<^verbatim>\<open>container\<close> of each module that can be
  imported, a class is called by making an instance that keeps the arguments, and a
  factory creates an instance in the same way.
\<close>

definition sample_ext :: "(string \<times> pyval) list \<Rightarrow> ext" where
  "sample_ext mods =
     \<lparr>import_container =
        (\<lambda>md. case md of
                 VStr s \<Rightarrow> (case map_of mods s of Some c \<Rightarrow> ret (Some c) | None \<Rightarrow> throw (ImportError s))
               | _ \<Rightarrow> ret None),
      import_attr = (\<lambda>module_path class_name. ret (VClass module_path class_name)),
      call_class =
        (\<lambda>cls kwargs w. case cls of
             VClass module_path class_name \<Rightarrow>
               (let (a, w1) = alloc (Instance class_name False kwargs) w in (Inr (VRef a), w1))
           | _ \<Rightarrow> (Inl (TypeError ''object is not callable''), w)),
      call_create =
        (\<lambda>fac kwargs w. let (a, w1) = alloc (Instance ''created'' False kwargs) w in (Inr (VRef a), w1)),
      re_match = py_re_match,
      re_sub = py_re_sub\<rparr>"

text \<open>The world before the application starts: the registry of \<^verbatim>\<open>logos\<close> at address 0, the
  registry of a module \<^verbatim>\<open>app\<close> with two commands at address 1, and at address 2 the list of
  modules that the caller is about to pass to \<^verbatim>\<open>ApplicationContainer\<close>.\<close>

definition app_resources :: "(string \<times> resource) list" where
  "app_resources =
     [(''app.command.build'', Service (Some ''app:Build'') None []),
      (''app.command.test'', Service (Some ''app:Test'') None [])]"

definition boot_world :: world where
  "boot_world =
     \<lparr>heap = [0 \<mapsto> Container logos_resources, 1 \<mapsto> Container app_resources,
              2 \<mapsto> PyList [VStr ''app'']],
      next_addr = 3, app_instance = None, instances = None, wrapper_stack = None\<rparr>"

definition boot_ext :: ext where
  "boot_ext = sample_ext [(''logos'', VRef 0), (''app'', VRef 1)]"

text \<open>The world after \<^verbatim>\<open>ApplicationContainer(modules)\<close>: no scope has been activated.\<close>

definition started_world :: world where
  "started_world =
     \<lparr>heap = [0 \<mapsto> Container logos_resources, 1 \<mapsto> Container app_resources,
              2 \<mapsto> PyList [VStr ''app'', VStr ''logos''],
              3 \<mapsto> ApplicationContainer None (VRef 2) (Some [])],
      next_addr = 4, app_instance = Some 3, instances = None, wrapper_stack = None\<rparr>"

text \<open>Two flat registries that both declare \<^verbatim>\<open>k\<close>: \<^verbatim>\<open>L1 = {"k": 1}\<close> at address 2 and
  \<^verbatim>\<open>L2 = {"k": 2}\<close> at address 3.\<close>

definition layered_world :: world where
  "layered_world =
     \<lparr>heap = [2 \<mapsto> Container [(''k'', Parameter (VInt 1))],
              3 \<mapsto> Container [(''k'', Parameter (VInt 2))]],
      next_addr = 4, app_instance = None, instances = None, wrapper_stack = None\<rparr>"

text \<open>A scope (address 3) with an empty cache over a registry that declares the service
  \<^verbatim>\<open>svc\<close>.\<close>

definition scope_world :: world where
  "scope_world =
     \<lparr>heap = [0 \<mapsto> Container [(''svc'', Service (Some ''app:Svc'') None [])],
              1 \<mapsto> StackContainer [VRef 0] [], 2 \<mapsto> Dict [], 3 \<mapsto> Context 1 2],
      next_addr = 4, app_instance = None, instances = None, wrapper_stack = None\<rparr>"

text \<open>Two scopes, \<open>s\<close> at address 2 and \<open>t\<close> at address 4, none of them active.\<close>

definition nested_world :: world where
  "nested_world =
     \<lparr>heap = [0 \<mapsto> StackContainer [] [], 1 \<mapsto> Dict [], 2 \<mapsto> Context 0 1,
              3 \<mapsto> Dict [], 4 \<mapsto> Context 0 3],
      next_addr = 5, app_instance = None, instances = None, wrapper_stack = None\<rparr>"

text \<open>An active scope (address 4) over a registry that declares the service
  \<^verbatim>\<open>cmd.cmd.run\<close> and a group whose pattern \<^verbatim>\<open>cmd.\<close> has no \<^verbatim>\<open>^\<close>:
  \<^verbatim>\<open>with Context(Container({...})): ...\<close>.\<close>

definition group_world :: world where
  "group_world =
     \<lparr>heap = [0 \<mapsto> Container [(''cmd.cmd.run'', Service (Some ''app:Run'') None []),
                                (''groups.cmd'', ResourceGroup ''cmd.'')],
              2 \<mapsto> StackContainer [VRef 0] [], 3 \<mapsto> Dict [], 4 \<mapsto> Context 2 3],
      next_addr = 5, app_instance = None, instances = Some [4], wrapper_stack = None\<rparr>"

text \<open>A parent scope (address 3) whose cache holds two buffers that can be cloned, \<^verbatim>\<open>buf\<close>
  and \<^verbatim>\<open>tmp\<close>, and a service that cannot, \<^verbatim>\<open>svc\<close>; at address 7 the dict of overrides
  \<^verbatim>\<open>{"tmp": 7}\<close> that a caller passes to \<^verbatim>\<open>Context.new_from\<close>.\<close>

definition clone_world :: world where
  "clone_world =
     \<lparr>heap = [0 \<mapsto> Container [], 2 \<mapsto> Dict [(''buf'', VRef 4), (''tmp'', VRef 5), (''svc'', VRef 6)],
              3 \<mapsto> Context 9 2,
              4 \<mapsto> Instance ''Buffer'' True [(''data'', VInt 0)],
              5 \<mapsto> Instance ''Buffer'' True [(''data'', VInt 1)],
              6 \<mapsto> Instance ''Svc'' False [],
              7 \<mapsto> Dict [(''tmp'', VInt 7)],
              9 \<mapsto> StackContainer [VRef 0] []],
      next_addr = 10, app_instance = None, instances = None, wrapper_stack = None\<rparr>"

section \<open>Interpolation as the specification describes it\<close>

text \<open>
  The specification of parameter resolution, written down on its own so that it can be
  compared with \<open>resolve_value\<close>: a mapping is interpolated value by value, a sequence
  element by element; a string that starts and ends with \<^verbatim>\<open>%\<close> is replaced by the
  interpolation of what the registry returns for the name between the two delimiters; any
  other value is returned as it is. \<open>\<rho>\<close> is the registry (a lookup returns a value or
  raises), and \<open>k\<close> bounds how many lookups may follow each other, one on the result of
  the other; the result is \<open>None\<close> when that bound is exceeded. \<open>tup\<close> says whether a tuple
  counts as a sequence.
\<close>

definition strip_delimiters :: "string \<Rightarrow> string" where
  "strip_delimiters s = butlast (tl s)"

fun interpolate :: "bool \<Rightarrow> (string \<Rightarrow> error + pyval) \<Rightarrow> nat \<Rightarrow> pyval \<Rightarrow> (error + pyval) option"
and interpolate_list :: "bool \<Rightarrow> (string \<Rightarrow> error + pyval) \<Rightarrow> nat \<Rightarrow> pyval list \<Rightarrow> (error + pyval list) option"
and interpolate_items :: "bool \<Rightarrow> (string \<Rightarrow> error + pyval) \<Rightarrow> nat \<Rightarrow> pydict \<Rightarrow> (error + pydict) option"
where
  "interpolate tup \<rho> k (VDict kvs) =
     (case interpolate_items tup \<rho> k kvs of
        None \<Rightarrow> None
      | Some (Inl e) \<Rightarrow> Some (Inl e)
      | Some (Inr r) \<Rightarrow> Some (Inr (VDict r)))"
| "interpolate tup \<rho> k (VList xs) =
     (case interpolate_list tup \<rho> k xs of
        None \<Rightarrow> None
      | Some (Inl e) \<Rightarrow> Some (Inl e)
      | Some (Inr r) \<Rightarrow> Some (Inr (VList r)))"
| "interpolate tup \<rho> k (VTuple xs) =
     (if tup
      then (case interpolate_list tup \<rho> k xs of
              None \<Rightarrow> None
            | Some (Inl e) \<Rightarrow> Some (Inl e)
            | Some (Inr r) \<Rightarrow> Some (Inr (VTuple r)))
      else Some (Inr (VTuple xs)))"
| "interpolate tup \<rho> k (VStr s) =
     (if startswith_pct s \<and> endswith_pct s
      then (case \<rho> (strip_delimiters s) of
              Inl e \<Rightarrow> Some (Inl e)
            | Inr r \<Rightarrow> (case k of 0 \<Rightarrow> None | Suc j \<Rightarrow> interpolate tup \<rho> j r))
      else Some (Inr (VStr s)))"
| "interpolate tup \<rho> k VNone = Some (Inr VNone)"
| "interpolate tup \<rho> k (VBool b) = Some (Inr (VBool b))"
| "interpolate tup \<rho> k (VInt i) = Some (Inr (VInt i))"
| "interpolate tup \<rho> k (VRef a) = Some (Inr (VRef a))"
| "interpolate tup \<rho> k (VClass mp cn) = Some (Inr (VClass mp cn))"
| "interpolate tup \<rho> k VWrapper = Some (Inr VWrapper)"
| "interpolate_list tup \<rho> k [] = Some (Inr [])"
| "interpolate_list tup \<rho> k (x # xs) =
     (case interpolate tup \<rho> k x of
        None \<Rightarrow> None
      | Some (Inl e) \<Rightarrow> Some (Inl e)
      | Some (Inr y) \<Rightarrow>
          (case interpolate_list tup \<rho> k xs of
             None \<Rightarrow> None
           | Some (Inl e) \<Rightarrow> Some (Inl e)
           | Some (Inr ys) \<Rightarrow> Some (Inr (y # ys))))"
| "interpolate_items tup \<rho> k [] = Some (Inr [])"
| "interpolate_items tup \<rho> k ((key, v) # kvs) =
     (case interpolate tup \<rho> k v of
        None \<Rightarrow> None
      | Some (Inl e) \<Rightarrow> Some (Inl e)
      | Some (Inr y) \<Rightarrow>
          (case interpolate_items tup \<rho> k kvs of
             None \<Rightarrow> None
           | Some (Inl e) \<Rightarrow> Some (Inl e)
           | Some (Inr ys) \<Rightarrow> Some (Inr ((key, y) # ys))))"



text \<open>A flat registry of plain parameters, at address 0, for the examples of
  interpolation; \<open>pct_lookup\<close> is what a lookup in it returns.\<close>

definition pct_resources :: "(string \<times> resource) list" where
  "pct_resources =
     [(''x'', Parameter (VInt 5)), (''ab'', Parameter (VInt 1)), (''a%b'', Parameter (VInt 2)),
      (''a and b'', Parameter (VInt 3))]"

definition pct_world :: world where
  "pct_world =
     \<lparr>heap = [0 \<mapsto> Container pct_resources],
      next_addr = 1, app_instance = None, instances = None, wrapper_stack = None\<rparr>"

definition pct_lookup :: "string \<Rightarrow> error + pyval" where
  "pct_lookup n =
     (case map_of pct_resources n of
        None \<Rightarrow> Inl (ContainerException (n @ '' not in container''))
      | Some (Parameter v) \<Rightarrow> Inr v
      | Some r \<Rightarrow> Inl (Unmodelled ''resource''))"

section \<open>The cache of a scope over a sequence of requests\<close>

text \<open>The entries of the cache of the scope \<open>self\<close>: the dict that its attribute \<^verbatim>\<open>runtime\<close>
  holds.\<close>

definition cache_of :: "world \<Rightarrow> addr \<Rightarrow> string \<Rightarrow> pyval option" where
  "cache_of w self =
     (case heap w self of
        Some (Context c r) \<Rightarrow> (case heap w r of Some (Dict kvs) \<Rightarrow> map_of kvs | _ \<Rightarrow> Map.empty)
      | _ \<Rightarrow> Map.empty)"

text \<open>A client that calls \<^verbatim>\<open>self.get(n)\<close> for each name of a list in turn and goes on whether
  the call returned or raised: the world after the last call.\<close>

fun Context_gets :: "hooks \<Rightarrow> addr \<Rightarrow> string list \<Rightarrow> world \<Rightarrow> world" where
  "Context_gets hk self [] w = w"
| "Context_gets hk self (n # ns) w = Context_gets hk self ns (snd (Context_get hk self n w))"

text \<open>The worlds that requests on the scope of \<open>scope_world\<close> lead to: the registry and the
  scope are where they were, the cache is a dict, and the objects constructed since are at
  the addresses from 4 on.\<close>

definition scope_inv :: "world \<Rightarrow> bool" where
  "scope_inv w \<longleftrightarrow>
     heap w 0 = Some (Container [(''svc'', Service (Some ''app:Svc'') None [])])
     \<and> heap w 1 = Some (StackContainer [VRef 0] [])
     \<and> heap w 3 = Some (Context 1 2)
     \<and> (case heap w 2 of Some (Dict kvs) \<Rightarrow> True | _ \<Rightarrow> False)
     \<and> 4 \<le> next_addr w"

section \<open>Properties\<close>

subsection \<open>Evaluating the model on a given world\<close>

text \<open>The hooks of a given depth are selected without unfolding the hooks of the smaller
  depths that they contain.\<close>

lemma hooks_at_Suc:
  "obj_get (hooks_at x (Suc n)) = dispatch_get x (hooks_at x n)"
  "obj_has (hooks_at x (Suc n)) = dispatch_has x (hooks_at x n)"
  "obj_resources_names (hooks_at x (Suc n)) = StackContainer_resources_names x (hooks_at x n)"
  "again_resolve_value (hooks_at x (Suc n)) = resolve_value (hooks_at x n)"
  by simp_all

lemma hooks_at_numeral:
  "obj_get (hooks_at x (numeral k)) = dispatch_get x (hooks_at x (pred_numeral k))"
  "obj_has (hooks_at x (numeral k)) = dispatch_has x (hooks_at x (pred_numeral k))"
  "obj_resources_names (hooks_at x (numeral k)) = StackContainer_resources_names x (hooks_at x (pred_numeral k))"
  "again_resolve_value (hooks_at x (numeral k)) = resolve_value (hooks_at x (pred_numeral k))"
  by (simp_all add: numeral_eq_Suc)

lemma hooks_at_0:
  "obj_get (hooks_at x 0) = (\<lambda>v name. throw RecursionError)"
  "obj_has (hooks_at x 0) = (\<lambda>v name. throw RecursionError)"
  "obj_resources_names (hooks_at x 0) = (\<lambda>a. throw RecursionError)"
  "again_resolve_value (hooks_at x 0) = (\<lambda>v c. throw RecursionError)"
  by simp_all

lemmas eval_defs =
  hooks_at_Suc hooks_at_numeral hooks_at_0
  ret_def throw_def and_then_def alloc_def or_empty_def
  startswith_pct_def endswith_pct_def replace_pct_def unpack2_def
  Parameter_resolve_def Class_resolve_def Service_init_def Service_resolve_def
  runtime_or_new_def Context_init_stack_def Context_init_wrap_def Context_init_def
  Context_get_def Context_has_def Context_enter_def Context_exit_def with_scope_def
  has_clone_def clone_def Context_new_from_def
  layer_of_def ContextWrapper_stack_def append_layer_def ContextWrapper_root_def
  ContextWrapper_container_def ContextWrapper_get_def ContextWrapper_has_def
  ApplicationContainer_new_def ApplicationContainer_init_def ApplicationContainer_call_def
  set_container_def ApplicationContainer_container_def ApplicationContainer_get_def
  ApplicationContainer_has_def
  StackContainer_get_def names_union_def names_of_plain_def names_of_layer_def
  StackContainer_resources_names_def ContextWrapper_find_def ResourceGroup_resolve_def
  resource_resolve_def Container_get_def Container_has_def dispatch_get_def dispatch_has_def
  logos_resources_def re_special_def re_parse_def py_re_match_def py_re_sub_def
  sample_ext_def app_resources_def boot_ext_def Let_def

text \<open>\<open>started_world\<close> is the world that the construction of the application registry
  leaves.\<close>

lemma started_world_is_call:
  "ApplicationContainer_call (VRef 2) None boot_world = (Inr 3, started_world)"
  by (simp add: ApplicationContainer_call_def ApplicationContainer_new_def ApplicationContainer_init_def
        and_then_def alloc_def ret_def boot_world_def started_world_def or_empty_def)

lemma started_fields:
  "instances started_world = None" "next_addr started_world = 4"
  "wrapper_stack started_world = None" "app_instance started_world = Some 3"
  by (simp_all add: started_world_def)

subsection \<open>The ambient accessor without an active scope\<close>

lemmas root_defs = ContextWrapper_root_def Context_init_def Context_init_stack_def runtime_or_new_def
  append_layer_def and_then_def alloc_def Let_def

lemma root_result: "fst (ContextWrapper_root s w) = Inr (VRef (Suc (Suc (next_addr w))))"
  by (simp add: root_defs)

lemma root_next: "next_addr (snd (ContextWrapper_root s w)) = Suc (Suc (Suc (Suc (next_addr w))))"
  by (simp add: root_defs)

lemma root_heap:
  "heap (snd (ContextWrapper_root s w)) (next_addr w)
     = Some (StackContainer [VRef s, VRef (Suc (Suc (Suc (next_addr w))))] [])"
  "heap (snd (ContextWrapper_root s w)) (Suc (next_addr w)) = Some (Dict [])"
  "heap (snd (ContextWrapper_root s w)) (Suc (Suc (next_addr w)))
     = Some (Context (next_addr w) (Suc (next_addr w)))"
  "heap (snd (ContextWrapper_root s w)) (Suc (Suc (Suc (next_addr w))))
     = Some (Container [(''context'', Parameter (VRef (Suc (Suc (next_addr w)))))])"
  "a < next_addr w \<Longrightarrow> heap (snd (ContextWrapper_root s w)) a = heap w a"
  by (simp_all add: root_defs)

lemma root_fields:
  "wrapper_stack (snd (ContextWrapper_root s w)) = wrapper_stack w"
  "instances (snd (ContextWrapper_root s w)) = instances w"
  "app_instance (snd (ContextWrapper_root s w)) = app_instance w"
  by (simp_all add: root_defs)

lemma stack_cases:
  "wrapper_stack w = Some s0 \<Longrightarrow> ContextWrapper_stack w = (s0, w)"
  "wrapper_stack w = None \<Longrightarrow>
     fst (ContextWrapper_stack w) = next_addr w
     \<and> next_addr (snd (ContextWrapper_stack w)) = Suc (next_addr w)
     \<and> heap (snd (ContextWrapper_stack w)) (next_addr w)
          = Some (StackContainer [layer_of (app_instance w)] [])
     \<and> wrapper_stack (snd (ContextWrapper_stack w)) = Some (next_addr w)
     \<and> instances (snd (ContextWrapper_stack w)) = instances w"
  by (simp_all add: ContextWrapper_stack_def alloc_def)

lemma container_no_scope:
  assumes "instances (snd (ContextWrapper_stack w)) = None \<or> instances (snd (ContextWrapper_stack w)) = Some []"
  shows "ContextWrapper_container w
           = ContextWrapper_root (fst (ContextWrapper_stack w)) (snd (ContextWrapper_stack w))"
  using assms by (auto simp: ContextWrapper_container_def split_beta)

text \<open>
  C1 (as stated, refuted). No scope was ever activated. Two successive accesses to the
  current scope give two different scope objects (the objects at addresses 7 and 11),
  and two successive \<^verbatim>\<open>context.get('app.command.build')\<close> construct the service twice: they
  return the two different instances at addresses 11 and 16. The second request does not
  hit the cache that the first one filled.
\<close>

theorem ContextWrapper_root_scope_not_reused:
  "instances started_world = None
   \<and> fst (ContextWrapper_container started_world) = Inr (VRef 7)
   \<and> instances (snd (ContextWrapper_container started_world)) = None
   \<and> fst (ContextWrapper_container (snd (ContextWrapper_container started_world))) = Inr (VRef 11)
   \<and> fst (ContextWrapper_get (hooks_at boot_ext 8) ''app.command.build'' started_world) = Inr (VRef 11)
   \<and> fst (ContextWrapper_get (hooks_at boot_ext 8) ''app.command.build''
             (snd (ContextWrapper_get (hooks_at boot_ext 8) ''app.command.build'' started_world)))
       = Inr (VRef 16)"
  by (simp add: eval_defs started_world_def del: hooks_at.simps)

text \<open>
  C1 (amended). While the stack of active scopes is empty, every access to the current
  scope makes a new scope object \<open>cx\<close> with a new, empty cache \<open>rt\<close>, over a new layered
  registry \<open>sc\<close> with two layers: the layered registry \<open>s\<close> and a flat registry \<open>ct\<close> that
  declares the new scope under the name \<^verbatim>\<open>context\<close>. Only \<open>s\<close> is built once and reused:
  it is the attribute \<^verbatim>\<open>_stack\<close> when that is set, and otherwise a new layered registry
  over \<^verbatim>\<open>ApplicationContainer.instance\<close>, which is then stored in \<^verbatim>\<open>_stack\<close>.
\<close>

theorem ContextWrapper_container_new_root:
  assumes "instances w = None \<or> instances w = Some []"
  shows "\<exists>s sc rt cx ct w'.
     ContextWrapper_container w = (Inr (VRef cx), w')
     \<and> next_addr w \<le> cx \<and> cx < next_addr w'
     \<and> heap w' cx = Some (Context sc rt) \<and> heap w' rt = Some (Dict [])
     \<and> heap w' sc = Some (StackContainer [VRef s, VRef ct] [])
     \<and> heap w' ct = Some (Container [(''context'', Parameter (VRef cx))])
     \<and> wrapper_stack w' = Some s
     \<and> (case wrapper_stack w of
          Some s0 \<Rightarrow> s = s0
        | None \<Rightarrow> s = next_addr w \<and> heap w' s = Some (StackContainer [layer_of (app_instance w)] []))"
proof -
  define s where "s = fst (ContextWrapper_stack w)"
  define w1 where "w1 = snd (ContextWrapper_stack w)"
  define n where "n = next_addr w1"
  define w' where "w' = snd (ContextWrapper_root s w1)"
  have inst: "instances w1 = instances w"
    by (cases "wrapper_stack w") (simp_all add: w1_def stack_cases)
  with assms have "instances w1 = None \<or> instances w1 = Some []" by simp
  then have "ContextWrapper_container w = ContextWrapper_root s w1"
    unfolding s_def w1_def by (rule container_no_scope)
  then have res: "ContextWrapper_container w = (Inr (VRef (Suc (Suc n))), w')"
    by (simp add: w'_def n_def prod_eq_iff root_result)
  have nle: "next_addr w \<le> n"
    by (cases "wrapper_stack w") (simp_all add: n_def w1_def stack_cases)
  have ws1: "wrapper_stack w1 = Some s"
    by (cases "wrapper_stack w") (simp_all add: s_def w1_def stack_cases)
  have last: "(case wrapper_stack w of
          Some s0 \<Rightarrow> s = s0
        | None \<Rightarrow> s = next_addr w \<and> heap w' s = Some (StackContainer [layer_of (app_instance w)] []))"
  proof (cases "wrapper_stack w")
    case None
    then have "s = next_addr w" "n = Suc (next_addr w)"
      "heap w1 (next_addr w) = Some (StackContainer [layer_of (app_instance w)] [])"
      by (simp_all add: s_def n_def w1_def stack_cases)
    then show ?thesis using None by (simp add: w'_def root_heap(5) n_def)
  next
    case (Some s0)
    then show ?thesis by (simp add: s_def stack_cases)
  qed
  have "ContextWrapper_container w = (Inr (VRef (Suc (Suc n))), w')
     \<and> next_addr w \<le> Suc (Suc n) \<and> Suc (Suc n) < next_addr w'
     \<and> heap w' (Suc (Suc n)) = Some (Context n (Suc n)) \<and> heap w' (Suc n) = Some (Dict [])
     \<and> heap w' n = Some (StackContainer [VRef s, VRef (Suc (Suc (Suc n)))] [])
     \<and> heap w' (Suc (Suc (Suc n))) = Some (Container [(''context'', Parameter (VRef (Suc (Suc n))))])
     \<and> wrapper_stack w' = Some s
     \<and> (case wrapper_stack w of
          Some s0 \<Rightarrow> s = s0
        | None \<Rightarrow> s = next_addr w \<and> heap w' s = Some (StackContainer [layer_of (app_instance w)] []))"
    using res nle ws1 last by (simp add: w'_def n_def root_heap root_next root_fields)
  then show ?thesis by (intro exI)
qed

text \<open>In the world left by the construction of the application registry: the new scope
  is a new object, its cache is empty, and \<^verbatim>\<open>_stack\<close> becomes the object at address 4, a
  layered registry over the application registry (address 3).\<close>

theorem ContextWrapper_container_new_root_witness:
  "(instances started_world = None \<or> instances started_world = Some [])
   \<and> (\<exists>sc rt cx ct w'.
     ContextWrapper_container started_world = (Inr (VRef cx), w')
     \<and> 4 \<le> cx \<and> cx < next_addr w'
     \<and> heap w' cx = Some (Context sc rt) \<and> heap w' rt = Some (Dict [])
     \<and> heap w' sc = Some (StackContainer [VRef 4, VRef ct] [])
     \<and> heap w' ct = Some (Container [(''context'', Parameter (VRef cx))])
     \<and> wrapper_stack w' = Some 4
     \<and> heap w' 4 = Some (StackContainer [VRef 3] []))"
proof -
  have h: "instances started_world = None \<or> instances started_world = Some []"
    by (simp add: started_fields)
  from ContextWrapper_container_new_root [OF h]
  obtain s sc rt cx ct w' where
    r1: "ContextWrapper_container started_world = (Inr (VRef cx), w')"
    and r2: "next_addr started_world \<le> cx" and r3: "cx < next_addr w'"
    and r4: "heap w' cx = Some (Context sc rt)" and r5: "heap w' rt = Some (Dict [])"
    and r6: "heap w' sc = Some (StackContainer [VRef s, VRef ct] [])"
    and r7: "heap w' ct = Some (Container [(''context'', Parameter (VRef cx))])"
    and r8: "wrapper_stack w' = Some s"
    and r9: "(case wrapper_stack started_world of
          Some s0 \<Rightarrow> s = s0
        | None \<Rightarrow> s = next_addr started_world
            \<and> heap w' s = Some (StackContainer [layer_of (app_instance started_world)] []))"
    by (elim exE conjE)
  from r9 have s4: "s = 4" and hs0: "heap w' s = Some (StackContainer [VRef 3] [])"
    by (auto simp: started_fields layer_of_def)
  from hs0 s4 have hs: "heap w' 4 = Some (StackContainer [VRef 3] [])" by simp
  from r2 have c4: "4 \<le> cx" by (simp add: started_fields)
  from r6 s4 have r6': "heap w' sc = Some (StackContainer [VRef 4, VRef ct] [])" by simp
  from r8 s4 have r8': "wrapper_stack w' = Some 4" by simp
  have "ContextWrapper_container started_world = (Inr (VRef cx), w')
     \<and> 4 \<le> cx \<and> cx < next_addr w'
     \<and> heap w' cx = Some (Context sc rt) \<and> heap w' rt = Some (Dict [])
     \<and> heap w' sc = Some (StackContainer [VRef 4, VRef ct] [])
     \<and> heap w' ct = Some (Container [(''context'', Parameter (VRef cx))])
     \<and> wrapper_stack w' = Some 4
     \<and> heap w' 4 = Some (StackContainer [VRef 3] [])"
    by (intro conjI r1 c4 r3 r4 r5 r6' r7 r8' hs)
  then have "\<exists>sc rt cx ct w'.
     ContextWrapper_container started_world = (Inr (VRef cx), w')
     \<and> 4 \<le> cx \<and> cx < next_addr w'
     \<and> heap w' cx = Some (Context sc rt) \<and> heap w' rt = Some (Dict [])
     \<and> heap w' sc = Some (StackContainer [VRef 4, VRef ct] [])
     \<and> heap w' ct = Some (Container [(''context'', Parameter (VRef cx))])
     \<and> wrapper_stack w' = Some 4
     \<and> heap w' 4 = Some (StackContainer [VRef 3] [])"
    by (intro exI)
  with h show ?thesis by (rule conjI)
qed

subsection \<open>Declaring a service\<close>

text \<open>
  C2 (as stated, refuted). A declaration that sets both the class reference and the
  factory reference is accepted: the constructor keeps the class reference and never
  looks at the factory reference.
\<close>

theorem Service_init_both_accepted:
  "Service_init (Some ''pkg.mod:Cls'') (Some ''some.factory'') None
     = Inr (Service (Some ''pkg.mod:Cls'') None [])"
  by (simp add: Service_init_def or_empty_def)

text \<open>
  C2 (amended). Construction fails exactly when neither reference is given, and then with
  the error \<^verbatim>\<open>ValueError('class or factory is required')\<close>. In every other case an object
  is built that carries exactly one of the two attributes: the class reference when one
  was given (a factory reference given with it is dropped), the factory reference
  otherwise.
\<close>

theorem Service_init_fails_iff_neither:
  "(Service_init k f p = Inl (ValueError ''class or factory is required'')) = (k = None \<and> f = None)
   \<and> (\<forall>e. (Service_init k f p = Inl e) = (k = None \<and> f = None \<and> e = ValueError ''class or factory is required''))
   \<and> (\<forall>c. (k = Some c) = (Service_init k f p = Inr (Service (Some c) None (or_empty p))))
   \<and> (\<forall>g. (k = None \<and> f = Some g) = (Service_init k f p = Inr (Service None (Some g) (or_empty p))))"
  by (cases k; cases f) (auto simp: Service_init_def)

subsection \<open>Layered lookup\<close>

lemma first_having_pure:
  "\<forall>c \<in> set ls. obj_has hk c name w = (Inr (b c), w)
   \<Longrightarrow> first_having hk ls name w = (Inr (find b ls), w)"
  by (induction ls) (auto simp: and_then_def ret_def)

lemma StackContainer_has_pure:
  "\<forall>c \<in> set ls. obj_has hk c name w = (Inr (b c), w)
   \<Longrightarrow> StackContainer_has hk ls name w = (Inr (\<exists>c \<in> set ls. b c), w)"
  by (induction ls) (auto simp: and_then_def ret_def)

text \<open>
  C4. When asking the layers whether they have the name is a pure membership check
  (\<open>b c\<close> is the answer of layer \<open>c\<close>), \<^verbatim>\<open>StackContainer.get\<close> returns what the last layer of
  the list that has the name returns; when no layer has it, it returns what the first
  layer of the list returns, which is that layer's own error (and with no layer at all
  the index \<^verbatim>\<open>[0]\<close> fails). \<^verbatim>\<open>StackContainer.has\<close> is true exactly when some layer has it.
\<close>

theorem StackContainer_get_last_layer_wins:
  assumes "\<forall>c \<in> set cs. obj_has hk c name w = (Inr (b c), w)"
  shows "StackContainer_get hk cs name w =
           (case find b (rev cs) of
              Some c \<Rightarrow> obj_get hk c name w
            | None \<Rightarrow>
                (case cs of
                   [] \<Rightarrow> (Inl (IndexError ''list index out of range''), w)
                 | c0 # rest \<Rightarrow> obj_get hk c0 name w))
         \<and> StackContainer_has hk cs name w = (Inr (\<exists>c \<in> set cs. b c), w)"
proof -
  from assms have "\<forall>c \<in> set (rev cs). obj_has hk c name w = (Inr (b c), w)" by simp
  then have "first_having hk (rev cs) name w = (Inr (find b (rev cs)), w)"
    by (rule first_having_pure)
  then show ?thesis
    using StackContainer_has_pure [OF assms]
    by (simp add: StackContainer_get_def and_then_def throw_def split: option.splits list.splits)
qed

lemma layered_has:
  "obj_has (hooks_at (sample_ext []) 2) (VRef 2) n layered_world = (Inr (n = ''k''), layered_world)"
  "obj_has (hooks_at (sample_ext []) 2) (VRef 3) n layered_world = (Inr (n = ''k''), layered_world)"
  by (simp_all add: numeral_2_eq_2 dispatch_has_def layered_world_def Container_has_def ret_def)

lemma layered_get:
  "obj_get (hooks_at (sample_ext []) 2) (VRef 2) ''k'' layered_world = (Inr (VInt 1), layered_world)"
  "obj_get (hooks_at (sample_ext []) 2) (VRef 3) ''k'' layered_world = (Inr (VInt 2), layered_world)"
  "obj_get (hooks_at (sample_ext []) 2) (VRef 2) ''z'' layered_world
     = (Inl (ContainerException ''z not in container''), layered_world)"
  by (simp_all add: numeral_2_eq_2 dispatch_get_def layered_world_def Container_get_def
        resource_resolve_def Parameter_resolve_def ret_def throw_def)

text \<open>The example of C4: over \<open>[L1, L2]\<close> the name \<open>k\<close> resolves to 2, over \<open>[L2, L1]\<close> to 1,
  and a name that no layer has gives the error of the first layer.\<close>

theorem StackContainer_get_last_layer_wins_witness:
  "StackContainer_get (hooks_at (sample_ext []) 2) [VRef 2, VRef 3] ''k'' layered_world
     = (Inr (VInt 2), layered_world)
   \<and> StackContainer_get (hooks_at (sample_ext []) 2) [VRef 3, VRef 2] ''k'' layered_world
     = (Inr (VInt 1), layered_world)
   \<and> StackContainer_get (hooks_at (sample_ext []) 2) [VRef 2, VRef 3] ''z'' layered_world
     = (Inl (ContainerException ''z not in container''), layered_world)
   \<and> StackContainer_has (hooks_at (sample_ext []) 2) [VRef 2, VRef 3] ''k'' layered_world
     = (Inr True, layered_world)
   \<and> StackContainer_has (hooks_at (sample_ext []) 2) [VRef 2, VRef 3] ''z'' layered_world
     = (Inr False, layered_world)"
proof -
  let ?hk = "hooks_at (sample_ext []) 2"
  have k1: "\<forall>c \<in> set [VRef 2, VRef 3]. obj_has ?hk c ''k'' layered_world = (Inr ((\<lambda>c. True) c), layered_world)"
    by (simp add: layered_has)
  have k2: "\<forall>c \<in> set [VRef 3, VRef 2]. obj_has ?hk c ''k'' layered_world = (Inr ((\<lambda>c. True) c), layered_world)"
    by (simp add: layered_has)
  have z: "\<forall>c \<in> set [VRef 2, VRef 3]. obj_has ?hk c ''z'' layered_world = (Inr ((\<lambda>c. False) c), layered_world)"
    by (simp add: layered_has)
  show ?thesis
    using StackContainer_get_last_layer_wins [OF k1] StackContainer_get_last_layer_wins [OF k2]
      StackContainer_get_last_layer_wins [OF z]
    by (auto simp add: layered_get)
qed

subsection \<open>The cache of a scope\<close>

lemma Context_get_hit:
  assumes "heap w self = Some (Context c r)" "heap w r = Some (Dict kvs)" "map_of kvs name = Some v"
  shows "Context_get hk self name w = (Inr v, w)"
  using assms by (auto simp: Context_get_def dest: map_of_SomeD intro: rev_image_eqI)

lemma map_le_Some: "m \<subseteq>\<^sub>m m' \<Longrightarrow> m a = Some v \<Longrightarrow> m' a = Some v"
  by (metis domI map_le_def)

lemma cache_of_scope:
  "heap w self = Some (Context c r) \<Longrightarrow> heap w r = Some (Dict kvs) \<Longrightarrow> cache_of w self = map_of kvs"
  by (simp add: cache_of_def)

text \<open>One request on a scope, under the hypotheses of the theorem below.\<close>

lemma Context_get_step:
  fixes R :: "world \<Rightarrow> bool"
  assumes scope: "\<forall>w0. R w0 \<longrightarrow> heap w0 self = Some (Context c r) \<and> (\<exists>kvs. heap w0 r = Some (Dict kvs))"
    and reg: "\<forall>n w0 res w1. R w0 \<longrightarrow> obj_get hk (VRef c) n w0 = (res, w1) \<longrightarrow>
               R w1 \<and> cache_of w0 self \<subseteq>\<^sub>m cache_of w1 self"
    and put: "\<forall>n v w0 kvs. R w0 \<longrightarrow> heap w0 r = Some (Dict kvs) \<longrightarrow>
               R (w0\<lparr>heap := (heap w0)(r \<mapsto> Dict (AList.update n v kvs))\<rparr>)"
    and Rw: "R w"
  shows "R (snd (Context_get hk self n w))"
    and "cache_of w self \<subseteq>\<^sub>m cache_of (snd (Context_get hk self n w)) self"
    and "cache_of w self n = None \<longrightarrow>
          (\<exists>res w1. obj_get hk (VRef c) n w = (res, w1) \<and>
             (case res of
                Inl e \<Rightarrow> Context_get hk self n w = (Inl e, w1)
              | Inr v \<Rightarrow> (\<exists>kvs1. heap w1 r = Some (Dict kvs1) \<and>
                    Context_get hk self n w
                      = (Inr v, w1\<lparr>heap := (heap w1)(r \<mapsto> Dict (AList.update n v kvs1))\<rparr>))))"
    and "\<forall>v w'. Context_get hk self n w = (Inr v, w') \<longrightarrow> cache_of w' self n = Some v"
proof -
  from scope Rw obtain kvs where hs: "heap w self = Some (Context c r)"
    and hr: "heap w r = Some (Dict kvs)" by blast
  have co: "cache_of w self = map_of kvs" using hs hr by (rule cache_of_scope)
  have "R (snd (Context_get hk self n w))
      \<and> cache_of w self \<subseteq>\<^sub>m cache_of (snd (Context_get hk self n w)) self
      \<and> (cache_of w self n = None \<longrightarrow>
          (\<exists>res w1. obj_get hk (VRef c) n w = (res, w1) \<and>
             (case res of
                Inl e \<Rightarrow> Context_get hk self n w = (Inl e, w1)
              | Inr v \<Rightarrow> (\<exists>kvs1. heap w1 r = Some (Dict kvs1) \<and>
                    Context_get hk self n w
                      = (Inr v, w1\<lparr>heap := (heap w1)(r \<mapsto> Dict (AList.update n v kvs1))\<rparr>)))))
      \<and> (\<forall>v w'. Context_get hk self n w = (Inr v, w') \<longrightarrow> cache_of w' self n = Some v)"
  proof (cases "map_of kvs n")
    case (Some v)
    from Context_get_hit [OF hs hr Some] have "Context_get hk self n w = (Inr v, w)" .
    with Rw co Some show ?thesis by simp
  next
    case None
    then have notin: "n \<notin> set (map fst kvs)" by (simp add: map_of_eq_None_iff)
    obtain res w1 where g: "obj_get hk (VRef c) n w = (res, w1)" by (cases "obj_get hk (VRef c) n w")
    from reg Rw g have Rw1: "R w1" and le: "cache_of w self \<subseteq>\<^sub>m cache_of w1 self" by blast+
    from scope Rw1 obtain kvs1 where hs1: "heap w1 self = Some (Context c r)"
      and hr1: "heap w1 r = Some (Dict kvs1)" by blast
    have co1: "cache_of w1 self = map_of kvs1" using hs1 hr1 by (rule cache_of_scope)
    show ?thesis
    proof (cases res)
      case (Inl e)
      with hs hr notin g have "Context_get hk self n w = (Inl e, w1)"
        by (simp add: Context_get_def and_then_def)
      with Rw1 le g Inl show ?thesis by simp
    next
      case (Inr v)
      let ?w2 = "w1\<lparr>heap := (heap w1)(r \<mapsto> Dict (AList.update n v kvs1))\<rparr>"
      from hs hr notin g Inr hs1 hr1 have cg: "Context_get hk self n w = (Inr v, ?w2)"
        by (simp add: Context_get_def and_then_def)
      from put Rw1 hr1 have Rw2: "R ?w2" by blast
      from hs1 hr1 have ne: "self \<noteq> r" by auto
      with hs1 have "cache_of ?w2 self = map_of (AList.update n v kvs1)"
        by (simp add: cache_of_def)
      then have co2: "cache_of ?w2 self = (map_of kvs1)(n \<mapsto> v)" by (simp add: update_conv')
      from le co co1 None have "map_of kvs \<subseteq>\<^sub>m (map_of kvs1)(n \<mapsto> v)"
        by (auto simp: map_le_def domIff)
      with co co2 have le2: "cache_of w self \<subseteq>\<^sub>m cache_of ?w2 self" by simp
      from cg Rw2 le2 co2 g Inr hr1 show ?thesis by simp
    qed
  qed
  then show "R (snd (Context_get hk self n w))"
    and "cache_of w self \<subseteq>\<^sub>m cache_of (snd (Context_get hk self n w)) self"
    and "cache_of w self n = None \<longrightarrow>
          (\<exists>res w1. obj_get hk (VRef c) n w = (res, w1) \<and>
             (case res of
                Inl e \<Rightarrow> Context_get hk self n w = (Inl e, w1)
              | Inr v \<Rightarrow> (\<exists>kvs1. heap w1 r = Some (Dict kvs1) \<and>
                    Context_get hk self n w
                      = (Inr v, w1\<lparr>heap := (heap w1)(r \<mapsto> Dict (AList.update n v kvs1))\<rparr>))))"
    and "\<forall>v w'. Context_get hk self n w = (Inr v, w') \<longrightarrow> cache_of w' self n = Some v"
    by blast+
qed

lemma Context_gets_keep:
  fixes R :: "world \<Rightarrow> bool"
  assumes scope: "\<forall>w0. R w0 \<longrightarrow> heap w0 self = Some (Context c r) \<and> (\<exists>kvs. heap w0 r = Some (Dict kvs))"
    and reg: "\<forall>n w0 res w1. R w0 \<longrightarrow> obj_get hk (VRef c) n w0 = (res, w1) \<longrightarrow>
               R w1 \<and> cache_of w0 self \<subseteq>\<^sub>m cache_of w1 self"
    and put: "\<forall>n v w0 kvs. R w0 \<longrightarrow> heap w0 r = Some (Dict kvs) \<longrightarrow>
               R (w0\<lparr>heap := (heap w0)(r \<mapsto> Dict (AList.update n v kvs))\<rparr>)"
  shows "R w \<Longrightarrow> R (Context_gets hk self ns w) \<and> cache_of w self \<subseteq>\<^sub>m cache_of (Context_gets hk self ns w) self"
proof (induction ns arbitrary: w)
  case Nil
  then show ?case by simp
next
  case (Cons n ns)
  from Context_get_step(1,2) [OF scope reg put Cons.prems, of n]
  have R1: "R (snd (Context_get hk self n w))"
    and le1: "cache_of w self \<subseteq>\<^sub>m cache_of (snd (Context_get hk self n w)) self" by blast+
  from Cons.IH [OF R1] le1 show ?case by (auto intro: map_le_trans)
qed

lemma Context_get_cached_value:
  fixes R :: "world \<Rightarrow> bool"
  assumes scope: "\<forall>w0. R w0 \<longrightarrow> heap w0 self = Some (Context c r) \<and> (\<exists>kvs. heap w0 r = Some (Dict kvs))"
    and Rw: "R w" and cv: "cache_of w self n = Some v"
  shows "Context_get hk' self n w = (Inr v, w)"
proof -
  from scope Rw obtain kvs where hs: "heap w self = Some (Context c r)"
    and hr: "heap w r = Some (Dict kvs)" by blast
  from cv cache_of_scope [OF hs hr] have "map_of kvs n = Some v" by simp
  from Context_get_hit [OF hs hr this] show ?thesis .
qed

text \<open>
  C5. The scope \<open>self\<close> has the registry \<open>c\<close> and the cache \<open>r\<close> in every world that satisfies
  \<open>R\<close>; a lookup in the registry keeps \<open>R\<close> and leaves every entry of the cache as it is
  (the resources and the constructors that they call do not write to the cache of the
  scope), and \<open>R\<close> allows an entry to be written to the cache. Then:

  \<^item> a \<^verbatim>\<open>get(name)\<close> for a name that is not in the cache is one lookup in the registry: when
    the lookup raises, \<^verbatim>\<open>get\<close> raises the same exception in the world that the lookup
    left; when it returns \<open>v\<close>, \<^verbatim>\<open>get\<close> returns \<open>v\<close> in the world that the lookup left with
    the one entry \<open>name \<mapsto> v\<close> written to the cache;

  \<^item> once \<^verbatim>\<open>get(name)\<close> has returned \<open>v\<close>, after any further sequence \<open>ns\<close> of requests on
    the scope a \<^verbatim>\<open>get(name)\<close> returns \<open>v\<close> and leaves the world as it is, whatever the
    registry would do if it were asked (\<open>hk'\<close> is arbitrary): the registry, and so the
    resource, is not invoked again;

  \<^item> the cache only grows: every entry \<open>n \<mapsto> v\<close> of the cache is still in the cache after
    any sequence \<open>ns\<close> of requests on the scope, and a \<^verbatim>\<open>get(n)\<close> then returns \<open>v\<close>.
\<close>

theorem Context_get_cache_monotonic:
  fixes R :: "world \<Rightarrow> bool"
  assumes "R w"
    and "\<forall>w0. R w0 \<longrightarrow> heap w0 self = Some (Context c r) \<and> (\<exists>kvs. heap w0 r = Some (Dict kvs))"
    and "\<forall>n w0 res w1. R w0 \<longrightarrow> obj_get hk (VRef c) n w0 = (res, w1) \<longrightarrow>
               R w1 \<and> cache_of w0 self \<subseteq>\<^sub>m cache_of w1 self"
    and "\<forall>n v w0 kvs. R w0 \<longrightarrow> heap w0 r = Some (Dict kvs) \<longrightarrow>
               R (w0\<lparr>heap := (heap w0)(r \<mapsto> Dict (AList.update n v kvs))\<rparr>)"
  shows "(cache_of w self name = None \<longrightarrow>
          (\<exists>res w1. obj_get hk (VRef c) name w = (res, w1) \<and>
             (case res of
                Inl e \<Rightarrow> Context_get hk self name w = (Inl e, w1)
              | Inr v \<Rightarrow> (\<exists>kvs1. heap w1 r = Some (Dict kvs1) \<and>
                    Context_get hk self name w
                      = (Inr v, w1\<lparr>heap := (heap w1)(r \<mapsto> Dict (AList.update name v kvs1))\<rparr>)))))
       \<and> (\<forall>v w' ns. Context_get hk self name w = (Inr v, w') \<longrightarrow>
            Context_get hk' self name (Context_gets hk self ns w')
              = (Inr v, Context_gets hk self ns w'))
       \<and> (\<forall>n v ns. cache_of w self n = Some v \<longrightarrow>
            cache_of (Context_gets hk self ns w) self n = Some v
            \<and> Context_get hk' self n (Context_gets hk self ns w)
                = (Inr v, Context_gets hk self ns w))"
proof (intro conjI allI impI)
  assume "cache_of w self name = None"
  with Context_get_step(3) [OF assms(2,3,4,1), of name]
  show "\<exists>res w1. obj_get hk (VRef c) name w = (res, w1) \<and>
             (case res of
                Inl e \<Rightarrow> Context_get hk self name w = (Inl e, w1)
              | Inr v \<Rightarrow> (\<exists>kvs1. heap w1 r = Some (Dict kvs1) \<and>
                    Context_get hk self name w
                      = (Inr v, w1\<lparr>heap := (heap w1)(r \<mapsto> Dict (AList.update name v kvs1))\<rparr>)))"
    by blast
next
  fix v w' ns
  assume g: "Context_get hk self name w = (Inr v, w')"
  from Context_get_step(1) [OF assms(2,3,4,1), of name] g have Rw': "R w'" by simp
  from Context_get_step(4) [OF assms(2,3,4,1), of name] g have cv: "cache_of w' self name = Some v"
    by blast
  from Context_gets_keep [OF assms(2,3,4) Rw', of ns]
  have R2: "R (Context_gets hk self ns w')"
    and le: "cache_of w' self \<subseteq>\<^sub>m cache_of (Context_gets hk self ns w') self" by blast+
  from le cv have "cache_of (Context_gets hk self ns w') self name = Some v"
    by (rule map_le_Some)
  from Context_get_cached_value [OF assms(2) R2 this]
  show "Context_get hk' self name (Context_gets hk self ns w') = (Inr v, Context_gets hk self ns w')" .
next
  fix n v ns
  assume cv: "cache_of w self n = Some v"
  from Context_gets_keep [OF assms(2,3,4,1), of ns]
  have R2: "R (Context_gets hk self ns w)"
    and le: "cache_of w self \<subseteq>\<^sub>m cache_of (Context_gets hk self ns w) self" by blast+
  from le cv show c2: "cache_of (Context_gets hk self ns w) self n = Some v"
    by (rule map_le_Some)
  from Context_get_cached_value [OF assms(2) R2 c2]
  show "Context_get hk' self n (Context_gets hk self ns w) = (Inr v, Context_gets hk self ns w)" .
qed

lemma scope_get:
  assumes "scope_inv w0"
  shows "obj_get (hooks_at (sample_ext []) 3) (VRef 1) n w0
     = (if n = ''svc''
        then (Inr (VRef (next_addr w0)),
              snd (alloc (Instance ''Svc'' False []) w0))
        else (Inl (ContainerException (n @ '' not in container'')), w0))"
  using assms
  by (simp add: scope_inv_def eval_defs split_colon.simps first_having.simps del: hooks_at.simps)

lemma scope_inv_get:
  assumes "scope_inv w0" "obj_get (hooks_at (sample_ext []) 3) (VRef 1) n w0 = (res, w1)"
  shows "scope_inv w1 \<and> cache_of w0 3 \<subseteq>\<^sub>m cache_of w1 3"
proof (cases "n = ''svc''")
  case True
  with assms scope_get [OF assms(1), of n]
  have w1: "w1 = snd (alloc (Instance ''Svc'' False []) w0)" by simp
  from assms(1) have "4 \<le> next_addr w0" by (simp add: scope_inv_def)
  then have "heap w1 0 = heap w0 0" "heap w1 1 = heap w0 1" "heap w1 2 = heap w0 2"
    "heap w1 3 = heap w0 3" "4 \<le> next_addr w1"
    by (simp_all add: w1 alloc_def)
  with assms(1) show ?thesis by (simp add: scope_inv_def cache_of_def)
next
  case False
  with assms scope_get [OF assms(1), of n] have "w1 = w0" by simp
  with assms(1) show ?thesis by simp
qed

text \<open>The example of C5: the first \<^verbatim>\<open>get("svc")\<close> constructs one instance, the object at
  address 4 (the next free address moves from 4 to 5). After the further requests
  \<^verbatim>\<open>get("other")\<close>, which raises, and \<^verbatim>\<open>get("svc")\<close>, a \<^verbatim>\<open>get("svc")\<close> returns that instance
  although every call to the registry would now raise (the depth is 0), and nothing else
  has been constructed: the next free address is still 5.\<close>

theorem Context_get_cache_monotonic_witness:
  "fst (Context_get (hooks_at (sample_ext []) 3) 3 ''svc'' scope_world) = Inr (VRef 4)
   \<and> next_addr scope_world = 4
   \<and> next_addr (snd (Context_get (hooks_at (sample_ext []) 3) 3 ''svc'' scope_world)) = 5
   \<and> Context_get (hooks_at (sample_ext []) 0) 3 ''svc''
        (Context_gets (hooks_at (sample_ext []) 3) 3 [''other'', ''svc'']
           (snd (Context_get (hooks_at (sample_ext []) 3) 3 ''svc'' scope_world)))
      = (Inr (VRef 4),
         Context_gets (hooks_at (sample_ext []) 3) 3 [''other'', ''svc'']
           (snd (Context_get (hooks_at (sample_ext []) 3) 3 ''svc'' scope_world)))
   \<and> next_addr (Context_gets (hooks_at (sample_ext []) 3) 3 [''other'', ''svc'']
           (snd (Context_get (hooks_at (sample_ext []) 3) 3 ''svc'' scope_world))) = 5"
proof -
  have a: "fst (Context_get (hooks_at (sample_ext []) 3) 3 ''svc'' scope_world) = Inr (VRef 4)"
    by code_simp
  have b: "next_addr (snd (Context_get (hooks_at (sample_ext []) 3) 3 ''svc'' scope_world)) = 5"
    by code_simp
  have c: "next_addr scope_world = 4" by (simp add: scope_world_def)
  have d: "next_addr (Context_gets (hooks_at (sample_ext []) 3) 3 [''other'', ''svc'']
           (snd (Context_get (hooks_at (sample_ext []) 3) 3 ''svc'' scope_world))) = 5"
    by code_simp
  have g: "Context_get (hooks_at (sample_ext []) 3) 3 ''svc'' scope_world
        = (Inr (VRef 4), snd (Context_get (hooks_at (sample_ext []) 3) 3 ''svc'' scope_world))"
    using a by (metis prod.collapse)
  have h1: "scope_inv scope_world" by (simp add: scope_inv_def scope_world_def)
  have h2: "\<forall>w0. scope_inv w0 \<longrightarrow>
      heap w0 3 = Some (Context 1 2) \<and> (\<exists>kvs. heap w0 2 = Some (Dict kvs))"
    by (auto simp: scope_inv_def split: option.splits obj.splits)
  have h3: "\<forall>n w0 res w1. scope_inv w0 \<longrightarrow>
      obj_get (hooks_at (sample_ext []) 3) (VRef 1) n w0 = (res, w1) \<longrightarrow>
      scope_inv w1 \<and> cache_of w0 3 \<subseteq>\<^sub>m cache_of w1 3"
    using scope_inv_get by blast
  have h4: "\<forall>n v w0 kvs. scope_inv w0 \<longrightarrow> heap w0 2 = Some (Dict kvs) \<longrightarrow>
      scope_inv (w0\<lparr>heap := (heap w0)(2 \<mapsto> Dict (AList.update n v kvs))\<rparr>)"
    by (simp add: scope_inv_def)
  from Context_get_cache_monotonic [OF h1 h2 h3 h4,
      of "''svc''" "hooks_at (sample_ext []) 0"]
  have "\<forall>v w' ns. Context_get (hooks_at (sample_ext []) 3) 3 ''svc'' scope_world = (Inr v, w') \<longrightarrow>
            Context_get (hooks_at (sample_ext []) 0) 3 ''svc''
               (Context_gets (hooks_at (sample_ext []) 3) 3 ns w')
              = (Inr v, Context_gets (hooks_at (sample_ext []) 3) 3 ns w')"
    by (elim conjE)
  with g have "Context_get (hooks_at (sample_ext []) 0) 3 ''svc''
        (Context_gets (hooks_at (sample_ext []) 3) 3 [''other'', ''svc'']
           (snd (Context_get (hooks_at (sample_ext []) 3) 3 ''svc'' scope_world)))
      = (Inr (VRef 4),
         Context_gets (hooks_at (sample_ext []) 3) 3 [''other'', ''svc'']
           (snd (Context_get (hooks_at (sample_ext []) 3) 3 ''svc'' scope_world)))"
    by blast
  with a b c d show ?thesis by (intro conjI)
qed

subsection \<open>Activation of a scope\<close>

text \<open>
  C7 (the code at a failing input). The scope \<open>s\<close> is entered, then \<open>t\<close>, then \<open>s\<close> again.
  When the innermost block ends, \<^verbatim>\<open>__exit__\<close> removes the first entry for \<open>s\<close>, not the one
  that the innermost \<^verbatim>\<open>__enter__\<close> pushed: the stack is \<open>[t, s]\<close> and not \<open>[s, t]\<close> as before
  the block, and for the rest of the block of \<open>t\<close> the current scope is \<open>s\<close>.
\<close>

theorem Context_exit_reentered_scope:
  "fst (with_scope 2 (with_scope 4
          (and_then (with_scope 2 (ret ())) (\<lambda>u w. (Inr (instances w), w)))) nested_world)
     = Inr (Some [4, 2])
   \<and> fst (with_scope 2 (with_scope 4
          (and_then (with_scope 2 (ret ())) (\<lambda>u. ContextWrapper_container))) nested_world)
     = Inr (VRef 2)"
  by code_simp

subsection \<open>Construction of the application registry\<close>

text \<open>
  C9. While the class attribute \<^verbatim>\<open>instance\<close> is set, every construction fails with
  \<^verbatim>\<open>ContainerException('application container already initialized')\<close> and changes nothing.
  While it is not set, a construction with a list of modules succeeds, sets the attribute
  to the new object, and from then on every further construction fails in that way and
  leaves the world, so also the first instance, as it is.
\<close>

theorem ApplicationContainer_call_once:
  "(\<forall>i. app_instance w = Some i \<longrightarrow>
       ApplicationContainer_call modules configuration w
         = (Inl (ContainerException ''application container already initialized''), w))
   \<and> (app_instance w = None \<and> heap w ml = Some (PyList xs) \<and> ml < next_addr w \<longrightarrow>
       (\<exists>w'. ApplicationContainer_call (VRef ml) configuration w = (Inr (next_addr w), w')
          \<and> app_instance w' = Some (next_addr w)
          \<and> (\<forall>modules' configuration'.
                ApplicationContainer_call modules' configuration' w'
                  = (Inl (ContainerException ''application container already initialized''), w'))))"
  by (auto simp: ApplicationContainer_call_def ApplicationContainer_new_def ApplicationContainer_init_def
        and_then_def alloc_def ret_def Let_def split: option.splits)

theorem ApplicationContainer_call_once_witness:
  "app_instance boot_world = None \<and> heap boot_world 2 = Some (PyList [VStr ''app''])
   \<and> 2 < next_addr boot_world
   \<and> (\<exists>w'. ApplicationContainer_call (VRef 2) None boot_world = (Inr 3, w')
          \<and> app_instance w' = Some 3
          \<and> (\<forall>modules' configuration'.
                ApplicationContainer_call modules' configuration' w'
                  = (Inl (ContainerException ''application container already initialized''), w')))"
  using ApplicationContainer_call_once
    [where w = boot_world and ml = 2 and xs = "[VStr ''app'']" and configuration = None]
  by (simp add: boot_world_def)

text \<open>
  C10. A successful construction leaves the list object that the caller passed with
  \<^verbatim>\<open>'logos'\<close> appended, and the new registry holds a reference to that same object.
\<close>

theorem ApplicationContainer_init_appends_in_place:
  assumes "app_instance w = None" "heap w ml = Some (PyList xs)" "ml < next_addr w"
  shows "\<exists>w'. ApplicationContainer_call (VRef ml) configuration w = (Inr (next_addr w), w')
          \<and> heap w' ml = Some (PyList (xs @ [VStr ''logos'']))
          \<and> heap w' (next_addr w) = Some (ApplicationContainer None (VRef ml) (Some (or_empty configuration)))"
  using assms
  by (auto simp: ApplicationContainer_call_def ApplicationContainer_new_def ApplicationContainer_init_def
        and_then_def alloc_def ret_def Let_def split: option.splits)

theorem ApplicationContainer_init_appends_in_place_witness:
  "app_instance boot_world = None \<and> heap boot_world 2 = Some (PyList [VStr ''app''])
   \<and> 2 < next_addr boot_world
   \<and> (\<exists>w'. ApplicationContainer_call (VRef 2) None boot_world = (Inr 3, w')
          \<and> heap w' 2 = Some (PyList [VStr ''app'', VStr ''logos''])
          \<and> heap w' 3 = Some (ApplicationContainer None (VRef 2) (Some [])))"
  using ApplicationContainer_init_appends_in_place
    [where w = boot_world and ml = 2 and xs = "[VStr ''app'']" and configuration = None]
  by (simp add: boot_world_def or_empty_def)

subsection \<open>Interpolation\<close>









text \<open>
  The hypothesis on the delimiters is needed. The registry declares \<^verbatim>\<open>ab\<close> as 1 and \<^verbatim>\<open>a%b\<close>
  as 2: for the string \<^verbatim>\<open>%a%b%\<close> the name between the delimiters is \<^verbatim>\<open>a%b\<close>, and
  \<^verbatim>\<open>value.replace('%', '')\<close> looks up \<^verbatim>\<open>ab\<close>.
\<close>

lemma resolve_value_inner_percent:
  "resolve_value (hooks_at (sample_ext []) 2) (VStr ''%a%b%'') (VRef 0) pct_world
     = (Inr (VInt 1), pct_world)
   \<and> interpolate False pct_lookup 1 (VStr ''%a%b%'') = Some (Inr (VInt 2))"
  by (simp add: eval_defs pct_world_def pct_resources_def pct_lookup_def strip_delimiters_def
        del: hooks_at.simps)

subsection \<open>Resolution of a group\<close>

text \<open>
  C8 (failing input). In the active scope of \<open>group_world\<close> the name \<^verbatim>\<open>cmd.cmd.run\<close> matches
  the pattern \<^verbatim>\<open>cmd.\<close> of the group, and the prefix that the pattern matches is \<^verbatim>\<open>cmd.\<close>: with
  that prefix stripped the key is \<^verbatim>\<open>cmd.run\<close>. The group resolves to
  \<^verbatim>\<open>{"run": "cmd.cmd.run"}\<close>: \<^verbatim>\<open>sub(self.pattern, '', v)\<close> removes every match of the pattern in
  the name, here two, and not only the one at the start that \<^verbatim>\<open>match\<close> found.
\<close>

theorem ResourceGroup_resolve_strips_every_match:
  "fst (Context_get (hooks_at (sample_ext []) 4) 4 ''groups.cmd'' group_world)
     = Inr (VDict [(''run'', VStr ''cmd.cmd.run'')])"
  by code_simp

subsection \<open>Derivation of a scope\<close>

lemma has_clone_instance:
  "has_clone w v \<longleftrightarrow> (\<exists>a cls attrs. v = VRef a \<and> heap w a = Some (Instance cls True attrs))"
  by (auto simp: has_clone_def split: pyval.splits option.splits obj.splits)

lemma has_clone_frame:
  assumes "\<forall>a. v = VRef a \<longrightarrow> heap w' a = heap w a
             \<or> (\<exists>d d'. heap w a = Some (Dict d) \<and> heap w' a = Some (Dict d'))"
  shows "has_clone w' v = has_clone w v"
  using assms by (cases v) (auto simp: has_clone_def)

text \<open>The loop of \<^verbatim>\<open>new_from\<close> over the entries \<open>kvs\<close> of the parent's cache, started with the
  dict \<open>d\<close> at \<open>rt\<close>: what it leaves in that dict and in the rest of the store.\<close>

lemma clone_items_seeds:
  assumes "heap w rt = Some (Dict d)"
    and "rt < next_addr w"
    and "\<forall>n v a. (n, VRef a) \<in> set kvs \<longrightarrow> a < next_addr w"
    and "distinct (map fst kvs)"
  shows "\<exists>w' d'. clone_items kvs rt w = (Inr (), w')
      \<and> heap w' rt = Some (Dict d')
      \<and> next_addr w \<le> next_addr w'
      \<and> (\<forall>a. a < next_addr w \<longrightarrow> a \<noteq> rt \<longrightarrow> heap w' a = heap w a)
      \<and> ((\<forall>n \<in> fst ` set kvs. n \<in> fst ` set d) \<longrightarrow> w' = w)
      \<and> (\<forall>n. n \<in> fst ` set d \<longrightarrow> map_of d' n = map_of d n)
      \<and> (\<forall>n a. (n, VRef a) \<in> set kvs \<longrightarrow> n \<notin> fst ` set d \<longrightarrow> has_clone w (VRef a) \<longrightarrow>
            (\<exists>b. map_of d' n = Some (VRef b) \<and> next_addr w \<le> b \<and> b < next_addr w' \<and> heap w' b = heap w a))
      \<and> (\<forall>n v. (n, v) \<in> set kvs \<longrightarrow> n \<notin> fst ` set d \<longrightarrow> \<not> has_clone w v \<longrightarrow> map_of d' n = None)
      \<and> (\<forall>n. n \<notin> fst ` set d \<longrightarrow> n \<notin> fst ` set kvs \<longrightarrow> map_of d' n = None)"
  using assms
proof (induction kvs arbitrary: w d)
  case Nil
  then show ?case by (auto simp: ret_def map_of_eq_None_iff)
next
  case (Cons kv kvs)
  obtain name v where kv: "kv = (name, v)" by (cases kv)
  from Cons.prems(4) kv have dist: "distinct (map fst kvs)" and nin: "name \<notin> fst ` set kvs" by auto
  show ?case
  proof (cases "name \<notin> fst ` set d \<and> has_clone w v")
    case False
    then have step: "clone_items (kv # kvs) rt w = clone_items kvs rt w"
      using Cons.prems(1) kv by auto
    from Cons.prems(3) have refs: "\<forall>n v a. (n, VRef a) \<in> set kvs \<longrightarrow> a < next_addr w" by auto
    from Cons.IH [OF Cons.prems(1,2) refs dist] obtain w' d' where
      r: "clone_items kvs rt w = (Inr (), w')"
      and h: "heap w' rt = Some (Dict d')"
      and nx: "next_addr w \<le> next_addr w'"
      and fr: "\<forall>a. a < next_addr w \<longrightarrow> a \<noteq> rt \<longrightarrow> heap w' a = heap w a"
      and same: "(\<forall>n \<in> fst ` set kvs. n \<in> fst ` set d) \<longrightarrow> w' = w"
      and keep: "\<forall>n. n \<in> fst ` set d \<longrightarrow> map_of d' n = map_of d n"
      and cl: "\<forall>n a. (n, VRef a) \<in> set kvs \<longrightarrow> n \<notin> fst ` set d \<longrightarrow> has_clone w (VRef a) \<longrightarrow>
            (\<exists>b. map_of d' n = Some (VRef b) \<and> next_addr w \<le> b \<and> b < next_addr w' \<and> heap w' b = heap w a)"
      and ncl: "\<forall>n v. (n, v) \<in> set kvs \<longrightarrow> n \<notin> fst ` set d \<longrightarrow> \<not> has_clone w v \<longrightarrow> map_of d' n = None"
      and no: "\<forall>n. n \<notin> fst ` set d \<longrightarrow> n \<notin> fst ` set kvs \<longrightarrow> map_of d' n = None"
      by (elim exE conjE)
    have cl': "\<forall>n a. (n, VRef a) \<in> set (kv # kvs) \<longrightarrow> n \<notin> fst ` set d \<longrightarrow> has_clone w (VRef a) \<longrightarrow>
            (\<exists>b. map_of d' n = Some (VRef b) \<and> next_addr w \<le> b \<and> b < next_addr w' \<and> heap w' b = heap w a)"
      using cl False kv by auto
    have ncl': "\<forall>n v'. (n, v') \<in> set (kv # kvs) \<longrightarrow> n \<notin> fst ` set d \<longrightarrow> \<not> has_clone w v' \<longrightarrow> map_of d' n = None"
      using ncl no nin kv by auto
    have no': "\<forall>n. n \<notin> fst ` set d \<longrightarrow> n \<notin> fst ` set (kv # kvs) \<longrightarrow> map_of d' n = None"
      using no by auto
    have same': "(\<forall>n \<in> fst ` set (kv # kvs). n \<in> fst ` set d) \<longrightarrow> w' = w"
      using same by auto
    from step r have r': "clone_items (kv # kvs) rt w = (Inr (), w')" by simp
    show ?thesis
      by (intro exI [of _ w'] exI [of _ d'] conjI r' h nx fr same' keep cl' ncl' no')
  next
    case True
    then have nd: "name \<notin> fst ` set d" and hc: "has_clone w v" by blast+
    from hc obtain a cls attrs where v: "v = VRef a"
      and ha: "heap w a = Some (Instance cls True attrs)"
      by (auto simp: has_clone_instance)
    let ?b = "next_addr w"
    let ?w1 = "w\<lparr>heap := (heap w)(?b \<mapsto> Instance cls True attrs), next_addr := Suc ?b\<rparr>"
    let ?d2 = "AList.update name (VRef ?b) d"
    let ?w2 = "?w1\<lparr>heap := (heap ?w1)(rt \<mapsto> Dict ?d2)\<rparr>"
    from Cons.prems(2) have rtb: "rt \<noteq> ?b" by simp
    have cv: "clone v w = (Inr (VRef ?b), ?w1)"
      using v ha by (simp add: clone_def alloc_def)
    have h1: "heap ?w1 rt = Some (Dict d)" using Cons.prems(1) rtb by simp
    have step: "clone_items (kv # kvs) rt w = clone_items kvs rt ?w2"
      using Cons.prems(1) kv True cv h1 by (simp add: and_then_def)
    have p1: "heap ?w2 rt = Some (Dict ?d2)" by simp
    have p2: "rt < next_addr ?w2" using Cons.prems(2) by simp
    have p3: "\<forall>n v a. (n, VRef a) \<in> set kvs \<longrightarrow> a < next_addr ?w2"
      using Cons.prems(3) by (auto simp: less_Suc_eq)
    from Cons.IH [OF p1 p2 p3 dist] obtain w' d' where
      r: "clone_items kvs rt ?w2 = (Inr (), w')"
      and h: "heap w' rt = Some (Dict d')"
      and nx: "next_addr ?w2 \<le> next_addr w'"
      and fr: "\<forall>a. a < next_addr ?w2 \<longrightarrow> a \<noteq> rt \<longrightarrow> heap w' a = heap ?w2 a"
      and keep: "\<forall>n. n \<in> fst ` set ?d2 \<longrightarrow> map_of d' n = map_of ?d2 n"
      and cl: "\<forall>n a. (n, VRef a) \<in> set kvs \<longrightarrow> n \<notin> fst ` set ?d2 \<longrightarrow> has_clone ?w2 (VRef a) \<longrightarrow>
            (\<exists>b. map_of d' n = Some (VRef b) \<and> next_addr ?w2 \<le> b \<and> b < next_addr w' \<and> heap w' b = heap ?w2 a)"
      and ncl: "\<forall>n v. (n, v) \<in> set kvs \<longrightarrow> n \<notin> fst ` set ?d2 \<longrightarrow> \<not> has_clone ?w2 v \<longrightarrow> map_of d' n = None"
      and no: "\<forall>n. n \<notin> fst ` set ?d2 \<longrightarrow> n \<notin> fst ` set kvs \<longrightarrow> map_of d' n = None"
      by (elim exE conjE)
    have dom2: "fst ` set ?d2 = insert name (fst ` set d)" by (simp add: dom_update)
    have nx': "next_addr w \<le> next_addr w'" using nx by simp
    have fr': "\<forall>a'. a' < next_addr w \<longrightarrow> a' \<noteq> rt \<longrightarrow> heap w' a' = heap w a'"
      using fr by simp
    have hb: "heap w' ?b = Some (Instance cls True attrs)" using fr rtb by simp
    have keep': "\<forall>n. n \<in> fst ` set d \<longrightarrow> map_of d' n = map_of d n"
    proof (intro allI impI)
      fix n assume n: "n \<in> fst ` set d"
      with nd have "n \<noteq> name" by auto
      with keep n dom2 show "map_of d' n = map_of d n" by (simp add: update_conv')
    qed
    have hd: "map_of d' name = Some (VRef ?b)"
      using keep dom2 by (simp add: update_conv')
    have hcf: "\<And>n v'. (n, v') \<in> set kvs \<Longrightarrow> has_clone ?w2 v' = has_clone w v'"
    proof -
      fix n v' assume m: "(n, v') \<in> set kvs"
      show "has_clone ?w2 v' = has_clone w v'"
      proof (rule has_clone_frame, intro allI impI)
        fix a' assume "v' = VRef a'"
        with m Cons.prems(3) have "a' < next_addr w" by auto
        then show "heap ?w2 a' = heap w a'
             \<or> (\<exists>d d'. heap w a' = Some (Dict d) \<and> heap ?w2 a' = Some (Dict d'))"
          using Cons.prems(1) by auto
      qed
    qed
    have cl': "\<forall>n a'. (n, VRef a') \<in> set (kv # kvs) \<longrightarrow> n \<notin> fst ` set d \<longrightarrow> has_clone w (VRef a') \<longrightarrow>
            (\<exists>b. map_of d' n = Some (VRef b) \<and> next_addr w \<le> b \<and> b < next_addr w' \<and> heap w' b = heap w a')"
    proof (intro allI impI)
      fix n a'
      assume m: "(n, VRef a') \<in> set (kv # kvs)" and n: "n \<notin> fst ` set d"
        and c: "has_clone w (VRef a')"
      show "\<exists>b. map_of d' n = Some (VRef b) \<and> next_addr w \<le> b \<and> b < next_addr w' \<and> heap w' b = heap w a'"
      proof (cases "(n, VRef a') = kv")
        case True
        with kv v have "n = name" "a' = a" by auto
        with hd hb ha nx show ?thesis by auto
      next
        case False
        with m have m': "(n, VRef a') \<in> set kvs" by simp
        with nin have "n \<noteq> name" by force
        with n dom2 have n2: "n \<notin> fst ` set ?d2" by simp
        from hcf [OF m'] c have c2: "has_clone ?w2 (VRef a')" by simp
        from cl m' n2 c2 obtain b where b: "map_of d' n = Some (VRef b)" "next_addr ?w2 \<le> b"
          "b < next_addr w'" "heap w' b = heap ?w2 a'" by blast
        from c obtain cls' attrs' where "heap w a' = Some (Instance cls' True attrs')"
          by (auto simp: has_clone_instance)
        with Cons.prems(1) have "a' \<noteq> rt" by auto
        moreover from m' Cons.prems(3) have "a' < next_addr w" by auto
        ultimately have "heap ?w2 a' = heap w a'" by simp
        with b show ?thesis by auto
      qed
    qed
    have ncl': "\<forall>n v'. (n, v') \<in> set (kv # kvs) \<longrightarrow> n \<notin> fst ` set d \<longrightarrow> \<not> has_clone w v' \<longrightarrow> map_of d' n = None"
    proof (intro allI impI)
      fix n v'
      assume m: "(n, v') \<in> set (kv # kvs)" and n: "n \<notin> fst ` set d"
        and c: "\<not> has_clone w v'"
      show "map_of d' n = None"
      proof (cases "n = name")
        case True
        with m kv nin have "v' = v" by force
        with c hc show ?thesis by simp
      next
        case False
        with m kv have m': "(n, v') \<in> set kvs" by auto
        from False n dom2 have n2: "n \<notin> fst ` set ?d2" by simp
        from hcf [OF m'] c have "\<not> has_clone ?w2 v'" by simp
        with ncl m' n2 show ?thesis by blast
      qed
    qed
    have no': "\<forall>n. n \<notin> fst ` set d \<longrightarrow> n \<notin> fst ` set (kv # kvs) \<longrightarrow> map_of d' n = None"
      using no dom2 kv by auto
    have same': "(\<forall>n \<in> fst ` set (kv # kvs). n \<in> fst ` set d) \<longrightarrow> w' = w"
      using nd kv by auto
    from step r have r': "clone_items (kv # kvs) rt w = (Inr (), w')" by simp
    show ?thesis
      by (intro exI [of _ w'] exI [of _ d'] conjI r' h nx' fr' same' keep' cl' ncl' no')
  qed
qed

lemma runtime_or_new_dict:
  assumes "case runtime of None \<Rightarrow> ov = [] | Some r \<Rightarrow> heap w r = Some (Dict ov) \<and> r < next_addr w"
  shows "\<exists>rt0 w1. runtime_or_new runtime w = (rt0, w1)
      \<and> heap w1 rt0 = Some (Dict ov)
      \<and> rt0 < next_addr w1
      \<and> next_addr w \<le> next_addr w1
      \<and> (\<forall>a. a < next_addr w \<longrightarrow> heap w1 a = heap w a)
      \<and> (rt0 < next_addr w \<longrightarrow> w1 = w)"
proof (cases runtime)
  case None
  with assms show ?thesis by (simp add: runtime_or_new_def alloc_def)
next
  case (Some r)
  with assms have hr: "heap w r = Some (Dict ov)" and rb: "r < next_addr w" by simp_all
  show ?thesis
  proof (cases ov)
    case Nil
    with Some hr show ?thesis by (simp add: runtime_or_new_def alloc_def)
  next
    case (Cons kv kvs)
    with Some hr rb show ?thesis by (simp add: runtime_or_new_def)
  qed
qed

lemma Context_init_stack_dict:
  assumes "heap w s = Some (StackContainer cs ns)" "heap w rt0 = Some (Dict d)"
    and "rt0 < next_addr w"
  shows "\<exists>cx rt w'. Context_init (VRef s) (Some rt0) w = (Inr (VRef cx), w')
      \<and> heap w' cx = Some (Context s rt)
      \<and> next_addr w \<le> cx
      \<and> heap w' rt = Some (Dict d)
      \<and> (\<forall>a. a < next_addr w \<longrightarrow> heap w' a = heap w a)"
proof (cases d)
  case Nil
  with assms show ?thesis
    by (simp add: Context_init_def Context_init_stack_def runtime_or_new_def alloc_def)
next
  case (Cons kv kvs)
  with assms show ?thesis
    by (auto simp: Context_init_def Context_init_stack_def runtime_or_new_def alloc_def)
qed

text \<open>
  C6. \<^verbatim>\<open>Context.new_from(parent, runtime, container)\<close> in a world where the parent scope has
  the registry \<open>pc\<close> and the cache \<open>items\<close>, the overrides are \<open>ov\<close> (empty when no dict is
  passed), every object referred to is allocated and the keys of the cache are distinct,
  as those of a dict are. The call returns a new scope \<open>cx\<close> over a new layered registry
  that holds the parent's registry and, when one is given, \<open>container\<close> after it. The
  cache \<open>d'\<close> of the new scope

  \<^item> has every entry of the overrides;

  \<^item> has, for every entry \<open>n \<mapsto> v\<close> of the parent's cache whose name is not in the
    overrides and whose value has the clone capability, an entry \<open>n \<mapsto> b\<close> where \<open>b\<close> is a
    new object, different from \<open>v\<close> and from every object that existed before the call,
    with the contents of \<open>v\<close>;

  \<^item> has no entry for a name of the parent's cache that is not in the overrides and
    whose value has no clone capability, and no entry for any other name.

  The parent scope and the dict that is its cache are after the call what they were
  before it.
\<close>

theorem Context_new_from_seeds_cache:
  assumes par: "heap w parent = Some (Context pc pr)"
    and pcache: "heap w pr = Some (Dict items)"
    and ovh: "case runtime of None \<Rightarrow> ov = []
              | Some r \<Rightarrow> heap w r = Some (Dict ov) \<and> r < next_addr w"
    and wfp: "parent < next_addr w \<and> pr < next_addr w"
    and refs: "\<forall>n a. (n, VRef a) \<in> set items \<longrightarrow> a < next_addr w"
    and dist: "distinct (map fst items)"
  shows "\<exists>cx s rt d' w'.
      Context_new_from parent runtime container w = (Inr (VRef cx), w')
      \<and> next_addr w \<le> cx
      \<and> heap w' cx = Some (Context s rt)
      \<and> heap w' s = Some (StackContainer (case container of None \<Rightarrow> [VRef pc] | Some c \<Rightarrow> [VRef pc, c]) [])
      \<and> heap w' rt = Some (Dict d')
      \<and> heap w' parent = heap w parent
      \<and> heap w' pr = heap w pr
      \<and> (\<forall>n v. map_of ov n = Some v \<longrightarrow> map_of d' n = Some v)
      \<and> (\<forall>n v. map_of items n = Some v \<longrightarrow> map_of ov n = None \<longrightarrow> has_clone w v \<longrightarrow>
            (\<exists>a b. v = VRef a \<and> map_of d' n = Some (VRef b) \<and> next_addr w \<le> b \<and> a < b
                \<and> heap w' b = heap w a))
      \<and> (\<forall>n v. map_of items n = Some v \<longrightarrow> map_of ov n = None \<longrightarrow> \<not> has_clone w v \<longrightarrow>
            map_of d' n = None)
      \<and> (\<forall>n. map_of items n = None \<longrightarrow> map_of ov n = None \<longrightarrow> map_of d' n = None)"
proof -
  let ?L = "case container of None \<Rightarrow> [VRef pc] | Some c \<Rightarrow> [VRef pc, c]"
  from runtime_or_new_dict [OF ovh] obtain rt0 w1 where
    ro: "runtime_or_new runtime w = (rt0, w1)"
    and h1: "heap w1 rt0 = Some (Dict ov)"
    and b1: "rt0 < next_addr w1"
    and n1: "next_addr w \<le> next_addr w1"
    and f1: "\<forall>a. a < next_addr w \<longrightarrow> heap w1 a = heap w a"
    and al: "rt0 < next_addr w \<longrightarrow> w1 = w"
    by (elim exE conjE)
  from wfp have pb: "parent < next_addr w" and prb: "pr < next_addr w" by simp_all
  from f1 pb par have par1: "heap w1 parent = Some (Context pc pr)" by simp
  from f1 prb pcache have pc1: "heap w1 pr = Some (Dict items)" by simp
  from refs n1 have refs1: "\<forall>n v a. (n, VRef a) \<in> set items \<longrightarrow> a < next_addr w1"
    by (meson less_le_trans)
  have hc1: "\<And>v. \<forall>a. v = VRef a \<longrightarrow> a < next_addr w \<Longrightarrow> has_clone w1 v = has_clone w v"
    by (rule has_clone_frame) (simp add: f1)
  from clone_items_seeds [OF h1 b1 refs1 dist] obtain w2 d' where
    ci: "clone_items items rt0 w1 = (Inr (), w2)"
    and h2: "heap w2 rt0 = Some (Dict d')"
    and n2: "next_addr w1 \<le> next_addr w2"
    and f2: "\<forall>a. a < next_addr w1 \<longrightarrow> a \<noteq> rt0 \<longrightarrow> heap w2 a = heap w1 a"
    and same: "(\<forall>n \<in> fst ` set items. n \<in> fst ` set ov) \<longrightarrow> w2 = w1"
    and keep: "\<forall>n. n \<in> fst ` set ov \<longrightarrow> map_of d' n = map_of ov n"
    and cl: "\<forall>n a. (n, VRef a) \<in> set items \<longrightarrow> n \<notin> fst ` set ov \<longrightarrow> has_clone w1 (VRef a) \<longrightarrow>
            (\<exists>b. map_of d' n = Some (VRef b) \<and> next_addr w1 \<le> b \<and> b < next_addr w2 \<and> heap w2 b = heap w1 a)"
    and ncl: "\<forall>n v. (n, v) \<in> set items \<longrightarrow> n \<notin> fst ` set ov \<longrightarrow> \<not> has_clone w1 v \<longrightarrow> map_of d' n = None"
    and no: "\<forall>n. n \<notin> fst ` set ov \<longrightarrow> n \<notin> fst ` set items \<longrightarrow> map_of d' n = None"
    by (elim exE conjE)
  let ?s = "next_addr w2"
  let ?w3 = "w2\<lparr>heap := (heap w2)(?s \<mapsto> StackContainer ?L []), next_addr := Suc ?s\<rparr>"
  have nf: "Context_new_from parent runtime container w = Context_init (VRef ?s) (Some rt0) ?w3"
    using ro par1 pc1 ci by (simp add: Context_new_from_def and_then_def alloc_def)
  from b1 n2 have rs: "rt0 \<noteq> ?s" by simp
  have h3s: "heap ?w3 ?s = Some (StackContainer ?L [])" by simp
  have h3r: "heap ?w3 rt0 = Some (Dict d')" using h2 rs by simp
  have b3: "rt0 < next_addr ?w3" using b1 n2 by simp
  from Context_init_stack_dict [OF h3s h3r b3] obtain cx rt w' where
    r: "Context_init (VRef ?s) (Some rt0) ?w3 = (Inr (VRef cx), w')"
    and hcx: "heap w' cx = Some (Context ?s rt)"
    and ncx: "next_addr ?w3 \<le> cx"
    and hrt: "heap w' rt = Some (Dict d')"
    and f4: "\<forall>a. a < next_addr ?w3 \<longrightarrow> heap w' a = heap ?w3 a"
    by (elim exE conjE)
  have f42: "\<And>a. a < next_addr w2 \<Longrightarrow> heap w' a = heap w2 a"
    using f4 by simp
  have c1: "Context_new_from parent runtime container w = (Inr (VRef cx), w')"
    using nf r by simp
  have c2: "next_addr w \<le> cx" using ncx n1 n2 by simp
  have c4: "heap w' ?s = Some (StackContainer ?L [])" using f4 by simp
  have pr0: "parent \<noteq> rt0" using par1 h1 by auto
  have c6: "heap w' parent = heap w parent"
  proof -
    from pb n1 n2 have "parent < next_addr w2" by simp
    then have "heap w' parent = heap w2 parent" by (rule f42)
    also from pb n1 pr0 f2 have "heap w2 parent = heap w1 parent" by simp
    also from f1 pb have "heap w1 parent = heap w parent" by simp
    finally show ?thesis .
  qed
  have w21: "heap w2 pr = heap w1 pr"
  proof (cases "pr = rt0")
    case False
    with prb n1 f2 show ?thesis by simp
  next
    case True
    with prb al have "w1 = w" by simp
    with True h1 pcache have "ov = items" by simp
    with same have "w2 = w1" by simp
    then show ?thesis by simp
  qed
  have c7: "heap w' pr = heap w pr"
  proof -
    from prb n1 n2 have "pr < next_addr w2" by simp
    then have "heap w' pr = heap w2 pr" by (rule f42)
    also note w21
    also from f1 prb have "heap w1 pr = heap w pr" by simp
    finally show ?thesis .
  qed
  have c8: "\<forall>n v. map_of ov n = Some v \<longrightarrow> map_of d' n = Some v"
  proof (intro allI impI)
    fix n v assume m: "map_of ov n = Some v"
    then have "n \<in> fst ` set ov" by (metis domI dom_map_of_conv_image_fst)
    with keep m show "map_of d' n = Some v" by simp
  qed
  have c9: "\<forall>n v. map_of items n = Some v \<longrightarrow> map_of ov n = None \<longrightarrow> has_clone w v \<longrightarrow>
            (\<exists>a b. v = VRef a \<and> map_of d' n = Some (VRef b) \<and> next_addr w \<le> b \<and> a < b
                \<and> heap w' b = heap w a)"
  proof (intro allI impI)
    fix n v
    assume m: "map_of items n = Some v" and o: "map_of ov n = None" and c: "has_clone w v"
    from c obtain a where v: "v = VRef a" by (auto simp: has_clone_instance)
    from m v have mem: "(n, VRef a) \<in> set items" by (simp add: map_of_SomeD)
    with refs have ab: "a < next_addr w" by blast
    from o have nov: "n \<notin> fst ` set ov" by (simp add: map_of_eq_None_iff)
    from hc1 [of v] v ab c have "has_clone w1 (VRef a)" by simp
    with cl mem nov obtain b where b: "map_of d' n = Some (VRef b)" and b1': "next_addr w1 \<le> b"
      and b2: "b < next_addr w2" and hb: "heap w2 b = heap w1 a" by blast
    from f42 [OF b2] hb have "heap w' b = heap w1 a" by simp
    with f1 ab have "heap w' b = heap w a" by simp
    moreover from b1' n1 have "next_addr w \<le> b" by simp
    moreover from this ab have "a < b" by simp
    ultimately show "\<exists>a b. v = VRef a \<and> map_of d' n = Some (VRef b) \<and> next_addr w \<le> b \<and> a < b
                \<and> heap w' b = heap w a"
      using v b by blast
  qed
  have c10: "\<forall>n v. map_of items n = Some v \<longrightarrow> map_of ov n = None \<longrightarrow> \<not> has_clone w v \<longrightarrow>
            map_of d' n = None"
  proof (intro allI impI)
    fix n v
    assume m: "map_of items n = Some v" and o: "map_of ov n = None" and c: "\<not> has_clone w v"
    from m have mem: "(n, v) \<in> set items" by (simp add: map_of_SomeD)
    from o have nov: "n \<notin> fst ` set ov" by (simp add: map_of_eq_None_iff)
    have "\<forall>a. v = VRef a \<longrightarrow> a < next_addr w" using mem refs by blast
    from hc1 [OF this] c have "\<not> has_clone w1 v" by simp
    with ncl mem nov show "map_of d' n = None" by blast
  qed
  have c11: "\<forall>n. map_of items n = None \<longrightarrow> map_of ov n = None \<longrightarrow> map_of d' n = None"
    using no by (simp add: map_of_eq_None_iff)
  show ?thesis
    by (intro exI [of _ cx] exI [of _ ?s] exI [of _ rt] exI [of _ d'] exI [of _ w'] conjI
          c1 c2 hcx c4 hrt c6 c7 c8 c9 c10 c11)
qed

text \<open>The example of C6: the parent's cache is \<^verbatim>\<open>{"buf": b4, "tmp": b5, "svc": s6}\<close> and the
  overrides are \<^verbatim>\<open>{"tmp": 7}\<close>. The new scope (address 12) has the cache
  \<^verbatim>\<open>{"tmp": 7, "buf": b10}\<close>: the override is kept, \<^verbatim>\<open>buf\<close> is a new object with the contents
  of \<^verbatim>\<open>b4\<close>, and \<^verbatim>\<open>svc\<close>, which cannot be cloned, is not there. The parent and its cache are
  unchanged.\<close>

theorem Context_new_from_seeds_cache_witness:
  "fst (Context_new_from 3 (Some 7) None clone_world) = Inr (VRef 12)
   \<and> heap (snd (Context_new_from 3 (Some 7) None clone_world)) 12 = Some (Context 11 7)
   \<and> heap (snd (Context_new_from 3 (Some 7) None clone_world)) 11 = Some (StackContainer [VRef 9] [])
   \<and> heap (snd (Context_new_from 3 (Some 7) None clone_world)) 7
        = Some (Dict [(''tmp'', VInt 7), (''buf'', VRef 10)])
   \<and> heap (snd (Context_new_from 3 (Some 7) None clone_world)) 10
        = Some (Instance ''Buffer'' True [(''data'', VInt 0)])
   \<and> heap (snd (Context_new_from 3 (Some 7) None clone_world)) 2
        = Some (Dict [(''buf'', VRef 4), (''tmp'', VRef 5), (''svc'', VRef 6)])
   \<and> heap (snd (Context_new_from 3 (Some 7) None clone_world)) 3 = Some (Context 9 2)"
proof -
  let ?r = "Context_new_from 3 (Some 7) None clone_world"
  have a: "fst ?r = Inr (VRef 12)" by code_simp
  have b: "heap (snd ?r) 12 = Some (Context 11 7)" by code_simp
  have c: "heap (snd ?r) 11 = Some (StackContainer [VRef 9] [])" by code_simp
  have d: "heap (snd ?r) 7 = Some (Dict [(''tmp'', VInt 7), (''buf'', VRef 10)])" by code_simp
  have e: "heap (snd ?r) 10 = Some (Instance ''Buffer'' True [(''data'', VInt 0)])" by code_simp
  have h1: "heap clone_world 3 = Some (Context 9 2)" by (simp add: clone_world_def)
  have h2: "heap clone_world 2 = Some (Dict [(''buf'', VRef 4), (''tmp'', VRef 5), (''svc'', VRef 6)])"
    by (simp add: clone_world_def)
  have h3: "case Some 7 of None \<Rightarrow> [(''tmp'', VInt 7)] = []
            | Some r \<Rightarrow> heap clone_world r = Some (Dict [(''tmp'', VInt 7)]) \<and> r < next_addr clone_world"
    by (simp add: clone_world_def)
  have h4: "3 < next_addr clone_world \<and> 2 < next_addr clone_world" by (simp add: clone_world_def)
  have h5: "\<forall>n a. (n, VRef a) \<in> set [(''buf'', VRef 4), (''tmp'', VRef 5), (''svc'', VRef 6)]
              \<longrightarrow> a < next_addr clone_world"
    by (auto simp: clone_world_def)
  have h6: "distinct (map fst [(''buf'', VRef 4), (''tmp'', VRef 5), (''svc'', VRef 6)])" by simp
  from Context_new_from_seeds_cache [OF h1 h2 h3 h4 h5 h6, of None]
  obtain cx w' where r: "?r = (Inr (VRef cx), w')"
    and p1: "heap w' 3 = heap clone_world 3" and p2: "heap w' 2 = heap clone_world 2"
    by (elim exE conjE)
  from r have "snd ?r = w'" by simp
  with p1 p2 h1 h2 have f: "heap (snd ?r) 2 = Some (Dict [(''buf'', VRef 4), (''tmp'', VRef 5), (''svc'', VRef 6)])"
    and g: "heap (snd ?r) 3 = Some (Context 9 2)" by simp_all
  show ?thesis by (intro conjI a b c d e f g)
qed

end
